theory Spec2Isabelle
  imports Main "HOL-Library.Word"
begin

section \<open>Data model of sharedptr.cpp\<close>

text \<open>
  A control block is identified by the number of its allocation: the allocator of the model
  hands out \<open>0, 1, 2, \<dots>\<close> and never reuses one, so that "the same block" means "the same
  allocation". The counters are \<open>size_t\<close>, taken as 64-bit words, with the wrap-around of
  \<open>++\<close> and \<open>--\<close>. A pointer object (a \<open>SharedPtr\<close> or a \<open>WeakPtr\<close>) holds one field
  \<open>cb\<close> of eight bytes; it lives in a storage slot, and a 64-bit address space has room for
  \<open>2 ^ 61\<close> such slots.
\<close>

type_synonym addr = nat
type_synonym size_t = "64 word"
type_synonym slot = "61 word"

text \<open>
  An object address (\<open>T*\<close>, \<open>void*\<close>): either an address supplied by the caller, or the
  address \<open>&object\<close> of the object embedded in the control block of an allocation.
  \<open>nullptr\<close> is \<open>None\<close>.
\<close>

datatype objptr = External nat | ObjectIn addr

text \<open>The two classes derived from \<open>BaseControlBlock\<close>, with their private members.\<close>

datatype ('v, 'd, 'al) ControlBlock =
    ControlBlockWithoutMakeShared (ptr: "objptr option") (deleter: 'd) (rebind_alloc: 'al)
  | ControlBlockWithMakeShared (object: 'v) (rebind_alloc: 'al)

record ('v, 'd, 'al) block =
  shared_count :: size_t
  weak_count :: size_t
  derived :: "('v, 'd, 'al) ControlBlock"

text \<open>
  A memory cell of the allocator: allocated and not yet constructed (\<open>Raw\<close>), holding a
  constructed control block (\<open>Live\<close>), or given back by \<open>deallocate\<close> (\<open>Freed\<close>). A freed
  cell keeps its last contents for the record only: every access of the program to a cell
  that is not \<open>Live\<close> is the fault \<open>InvalidBlock\<close> (undefined behaviour in C++).
\<close>

datatype ('v, 'd, 'al) cell =
    Raw
  | Live "('v, 'd, 'al) block"
  | Freed "('v, 'd, 'al) block"

text \<open>The calls observed on a block: the two virtual functions, and what \<open>destroy\<close> invokes.\<close>

datatype 'd action = Destroy | Deallocate | InvokeDeleter 'd objptr | DestroyObject

record ('v, 'd, 'al) state =
  heap :: "addr \<Rightarrow> ('v, 'd, 'al) cell option"
  next_addr :: addr
  strong :: "slot \<Rightarrow> addr option option"
  weak :: "slot \<Rightarrow> addr option option"
  log :: "(addr \<times> 'd action) list"

text \<open>
  \<open>strong s p = None\<close>: no SharedPtr object lives in slot \<open>p\<close>; \<open>Some None\<close>: one lives
  there and its \<open>cb\<close> is \<open>nullptr\<close>; \<open>Some (Some a)\<close>: its \<open>cb\<close> points to block \<open>a\<close>.
\<close>

datatype fault = InvalidBlock | NoSuchPointer | SlotInUse | ConstructorThrew

type_synonym ('v, 'd, 'al) result = "(fault \<times> ('v, 'd, 'al) state) + ('v, 'd, 'al) state"

text \<open>
  The code supplied by the user of the templates: the constructor of \<open>T\<close> (\<open>None\<close>: it
  throws), what the destructor of \<open>T\<close> and a call of the deleter do to the pointer objects
  of the program, and the default-constructed \<open>Deleter()\<close> and \<open>Allocator()\<close>.
\<close>

record ('args, 'v, 'd, 'al) user =
  construct_T :: "'args \<Rightarrow> 'v option"
  destruct_T :: "'v \<Rightarrow> ('v, 'd, 'al) state \<Rightarrow> ('v, 'd, 'al) result"
  call_deleter :: "'d \<Rightarrow> objptr \<Rightarrow> ('v, 'd, 'al) state \<Rightarrow> ('v, 'd, 'al) result"
  default_deleter :: 'd
  default_allocator :: 'al

definition and_then ::
  "('v, 'd, 'al) result \<Rightarrow> (('v, 'd, 'al) state \<Rightarrow> ('v, 'd, 'al) result) \<Rightarrow> ('v, 'd, 'al) result" where
  "and_then r f = (case r of Inl e \<Rightarrow> Inl e | Inr s \<Rightarrow> f s)"

definition block_at :: "('v, 'd, 'al) state \<Rightarrow> addr \<Rightarrow> ('v, 'd, 'al) block option" where
  "block_at s a = (case heap s a of Some (Live b) \<Rightarrow> Some b | _ \<Rightarrow> None)"

definition set_block :: "addr \<Rightarrow> ('v, 'd, 'al) block \<Rightarrow> ('v, 'd, 'al) state \<Rightarrow> ('v, 'd, 'al) state" where
  "set_block a b s = s\<lparr>heap := (heap s)(a \<mapsto> Live b)\<rparr>"

definition emit :: "addr \<Rightarrow> 'd action \<Rightarrow> ('v, 'd, 'al) state \<Rightarrow> ('v, 'd, 'al) state" where
  "emit a e s = s\<lparr>log := log s @ [(a, e)]\<rparr>"

text \<open>
  \<open>AllocTraits::allocate(rebind_alloc, 1)\<close>: a fresh cell of raw memory. The allocation
  itself is taken to succeed.
\<close>

definition allocate :: "('v, 'd, 'al) state \<Rightarrow> addr \<times> ('v, 'd, 'al) state" where
  "allocate s = (next_addr s, s\<lparr>heap := (heap s)(next_addr s \<mapsto> Raw), next_addr := Suc (next_addr s)\<rparr>)"

section \<open>The control blocks\<close>

text \<open>
  \<open>get()\<close>: lines 38 and 58.
\<close>

definition cb_get :: "addr \<Rightarrow> ('v, 'd, 'al) block \<Rightarrow> objptr option" where
  "cb_get a b = (case derived b of
      ControlBlockWithoutMakeShared p d al \<Rightarrow> p
    | ControlBlockWithMakeShared v al \<Rightarrow> Some (ObjectIn a))"

text \<open>
  \<open>deallocate()\<close>: lines 29 and 60, \<open>AllocTraits::deallocate(rebind_alloc, this, 1)\<close>.
\<close>

definition deallocate :: "addr \<Rightarrow> ('v, 'd, 'al) state \<Rightarrow> ('v, 'd, 'al) result" where
  "deallocate a s = (case block_at s a of
      None \<Rightarrow> Inl (InvalidBlock, s)
    | Some b \<Rightarrow> Inr (emit a Deallocate (s\<lparr>heap := (heap s)(a \<mapsto> Freed b)\<rparr>)))"

text \<open>
  \<open>destroy()\<close>: lines 33 to 36 (the deleter is called unless \<open>ptr\<close> is null) and lines 64 to
  66 (\<open>AllocTraits::destroy(rebind_alloc, &object)\<close> runs the destructor of \<open>T\<close>).
\<close>

definition destroy :: "('args, 'v, 'd, 'al) user \<Rightarrow> addr \<Rightarrow> ('v, 'd, 'al) state \<Rightarrow> ('v, 'd, 'al) result" where
  "destroy U a s = (case block_at s a of
      None \<Rightarrow> Inl (InvalidBlock, s)
    | Some b \<Rightarrow> (case derived b of
          ControlBlockWithoutMakeShared p d al \<Rightarrow> (case p of
              None \<Rightarrow> Inr (emit a Destroy s)
            | Some x \<Rightarrow> call_deleter U d x (emit a (InvokeDeleter d x) (emit a Destroy s)))
        | ControlBlockWithMakeShared v al \<Rightarrow>
            destruct_T U v (emit a DestroyObject (emit a Destroy s))))"

section \<open>SharedPtr\<close>

text \<open>
  The private constructor \<open>SharedPtr(BaseControlBlock* other_cb)\<close>, lines 77 to 81: the new
  pointer's \<open>cb\<close> is \<open>other_cb\<close>; the function below is its effect on the memory.
\<close>

definition SharedPtr_from_cb :: "addr option \<Rightarrow> ('v, 'd, 'al) state \<Rightarrow> ('v, 'd, 'al) result" where
  "SharedPtr_from_cb other_cb s = (case other_cb of
      None \<Rightarrow> Inr s
    | Some a \<Rightarrow> (case block_at s a of
          None \<Rightarrow> Inl (InvalidBlock, s)
        | Some b \<Rightarrow> Inr (set_block a (b\<lparr>shared_count := shared_count b + 1\<rparr>) s)))"

text \<open>
  The destructor, lines 182 to 191, of a pointer whose field is \<open>cb\<close>. The second read of
  the block, after \<open>destroy()\<close> has returned, is the read \<open>cb->weak_count\<close> of line 188.
\<close>

definition SharedPtr_release ::
  "('args, 'v, 'd, 'al) user \<Rightarrow> addr option \<Rightarrow> ('v, 'd, 'al) state \<Rightarrow> ('v, 'd, 'al) result" where
  "SharedPtr_release U cb s = (case cb of
      None \<Rightarrow> Inr s
    | Some a \<Rightarrow> (case block_at s a of
          None \<Rightarrow> Inl (InvalidBlock, s)
        | Some b \<Rightarrow>
            (let s1 = set_block a (b\<lparr>shared_count := shared_count b - 1\<rparr>) s in
             if shared_count b - 1 = 0
             then and_then (destroy U a s1) (\<lambda>s2.
                    case block_at s2 a of
                      None \<Rightarrow> Inl (InvalidBlock, s2)
                    | Some b2 \<Rightarrow> if weak_count b2 = 0 then deallocate a s2 else Inr s2)
             else Inr s1)))"

definition SharedPtr_default :: "slot \<Rightarrow> ('v, 'd, 'al) state \<Rightarrow> ('v, 'd, 'al) result" where
  "SharedPtr_default this s = (case strong s this of
      Some c \<Rightarrow> Inl (SlotInUse, s)
    | None \<Rightarrow> Inr (s\<lparr>strong := (strong s)(this \<mapsto> None)\<rparr>))"

text \<open>Lines 102 and 105: the copy constructors delegate to the private constructor.\<close>

definition SharedPtr_copy :: "slot \<Rightarrow> slot \<Rightarrow> ('v, 'd, 'al) state \<Rightarrow> ('v, 'd, 'al) result" where
  "SharedPtr_copy this other s = (case strong s this of
      Some c \<Rightarrow> Inl (SlotInUse, s)
    | None \<Rightarrow> (case strong s other of
          None \<Rightarrow> Inl (NoSuchPointer, s)
        | Some other_cb \<Rightarrow>
            and_then (SharedPtr_from_cb other_cb s)
              (\<lambda>s1. Inr (s1\<lparr>strong := (strong s1)(this \<mapsto> other_cb)\<rparr>))))"

text \<open>
  Lines 107 to 116: the parameter \<open>alloc\<close> is marked \<open>[[maybe_unused]]\<close> and is not used;
  \<open>rebind_alloc\<close> is default-constructed, allocates the block and is stored in it.
\<close>

definition SharedPtr_from_ptr ::
  "('args, 'v, 'd, 'al) user \<Rightarrow> slot \<Rightarrow> objptr option \<Rightarrow> 'd \<Rightarrow> 'al \<Rightarrow> ('v, 'd, 'al) state \<Rightarrow> ('v, 'd, 'al) result" where
  "SharedPtr_from_ptr U this p d alloc s = (case strong s this of
      Some c \<Rightarrow> Inl (SlotInUse, s)
    | None \<Rightarrow>
        (let rebind = default_allocator U;
             (a, s1) = allocate s;
             s2 = set_block a \<lparr>shared_count = 1, weak_count = 0,
                               derived = ControlBlockWithoutMakeShared p d rebind\<rparr> s1
         in Inr (s2\<lparr>strong := (strong s2)(this \<mapsto> Some a)\<rparr>)))"

text \<open>
  Lines 83 to 91, called by \<open>allocateShared\<close> with the counts 1 and 0: allocate, store the
  address in \<open>cb\<close>, construct in place. When the constructor of \<open>T\<close> throws, the exception
  leaves the constructor of the pointer at once: there is no handler, and the pointer object
  never comes to life.
\<close>

definition SharedPtr_emplace ::
  "('args, 'v, 'd, 'al) user \<Rightarrow> slot \<Rightarrow> size_t \<Rightarrow> size_t \<Rightarrow> 'al \<Rightarrow> 'args \<Rightarrow> ('v, 'd, 'al) state \<Rightarrow> ('v, 'd, 'al) result" where
  "SharedPtr_emplace U this sc wc alloc args s = (case strong s this of
      Some c \<Rightarrow> Inl (SlotInUse, s)
    | None \<Rightarrow>
        (let (a, s1) = allocate s in
         case construct_T U args of
           None \<Rightarrow> Inl (ConstructorThrew, s1)
         | Some v \<Rightarrow>
             (let s2 = set_block a \<lparr>shared_count = sc, weak_count = wc,
                                   derived = ControlBlockWithMakeShared v alloc\<rparr> s1
              in Inr (s2\<lparr>strong := (strong s2)(this \<mapsto> Some a)\<rparr>))))"

definition allocateShared ::
  "('args, 'v, 'd, 'al) user \<Rightarrow> slot \<Rightarrow> 'al \<Rightarrow> 'args \<Rightarrow> ('v, 'd, 'al) state \<Rightarrow> ('v, 'd, 'al) result" where
  "allocateShared U this alloc args s = SharedPtr_emplace U this 1 0 alloc args s"

definition makeShared ::
  "('args, 'v, 'd, 'al) user \<Rightarrow> slot \<Rightarrow> 'args \<Rightarrow> ('v, 'd, 'al) state \<Rightarrow> ('v, 'd, 'al) result" where
  "makeShared U this args s = allocateShared U this (default_allocator U) args s"

text \<open>Lines 118 to 121: the move constructor.\<close>

definition SharedPtr_move :: "slot \<Rightarrow> slot \<Rightarrow> ('v, 'd, 'al) state \<Rightarrow> ('v, 'd, 'al) result" where
  "SharedPtr_move this other s = (case strong s this of
      Some c \<Rightarrow> Inl (SlotInUse, s)
    | None \<Rightarrow> (case strong s other of
          None \<Rightarrow> Inl (NoSuchPointer, s)
        | Some other_cb \<Rightarrow>
            Inr (s\<lparr>strong := (strong s)(this \<mapsto> other_cb, other \<mapsto> None)\<rparr>)))"

text \<open>
  Lines 123 to 134: \<open>new_ptr\<close> is move-constructed from \<open>other\<close> (which becomes null), then
  swapped with \<open>*this\<close>, then destroyed. \<open>*this\<close> is read after \<open>other\<close> has been emptied:
  they may be the same object.
\<close>

definition SharedPtr_move_assign ::
  "('args, 'v, 'd, 'al) user \<Rightarrow> slot \<Rightarrow> slot \<Rightarrow> ('v, 'd, 'al) state \<Rightarrow> ('v, 'd, 'al) result" where
  "SharedPtr_move_assign U this other s = (case strong s this of
      None \<Rightarrow> Inl (NoSuchPointer, s)
    | Some c \<Rightarrow> (case strong s other of
          None \<Rightarrow> Inl (NoSuchPointer, s)
        | Some new_ptr \<Rightarrow>
            (let s1 = s\<lparr>strong := (strong s)(other \<mapsto> None)\<rparr> in
             case strong s1 this of
               None \<Rightarrow> Inl (NoSuchPointer, s1)
             | Some old \<Rightarrow>
                 SharedPtr_release U old (s1\<lparr>strong := (strong s1)(this \<mapsto> new_ptr)\<rparr>))))"

text \<open>Lines 137 to 148: copy to a temporary, swap, destroy the temporary.\<close>

definition SharedPtr_copy_assign ::
  "('args, 'v, 'd, 'al) user \<Rightarrow> slot \<Rightarrow> slot \<Rightarrow> ('v, 'd, 'al) state \<Rightarrow> ('v, 'd, 'al) result" where
  "SharedPtr_copy_assign U this other s = (case strong s this of
      None \<Rightarrow> Inl (NoSuchPointer, s)
    | Some old \<Rightarrow> (case strong s other of
          None \<Rightarrow> Inl (NoSuchPointer, s)
        | Some tmp \<Rightarrow>
            and_then (SharedPtr_from_cb tmp s)
              (\<lambda>s1. SharedPtr_release U old (s1\<lparr>strong := (strong s1)(this \<mapsto> tmp)\<rparr>))))"

text \<open>Lines 150 to 153.\<close>

definition SharedPtr_swap :: "slot \<Rightarrow> slot \<Rightarrow> ('v, 'd, 'al) state \<Rightarrow> ('v, 'd, 'al) result" where
  "SharedPtr_swap this other s = (case strong s this of
      None \<Rightarrow> Inl (NoSuchPointer, s)
    | Some c \<Rightarrow> (case strong s other of
          None \<Rightarrow> Inl (NoSuchPointer, s)
        | Some c' \<Rightarrow> Inr (s\<lparr>strong := (strong s)(this \<mapsto> c', other \<mapsto> c)\<rparr>)))"

text \<open>Lines 155 to 163: \<open>None\<close> when the call is undefined (no such pointer, or a dead block).\<close>

definition cb_use_count :: "('v, 'd, 'al) state \<Rightarrow> addr option \<Rightarrow> size_t option" where
  "cb_use_count s cb = (case cb of
      None \<Rightarrow> Some 0
    | Some a \<Rightarrow> map_option shared_count (block_at s a))"

definition SharedPtr_use_count :: "('v, 'd, 'al) state \<Rightarrow> slot \<Rightarrow> size_t option" where
  "SharedPtr_use_count s this = (case strong s this of
      None \<Rightarrow> None
    | Some cb \<Rightarrow> cb_use_count s cb)"

definition SharedPtr_get :: "('v, 'd, 'al) state \<Rightarrow> slot \<Rightarrow> objptr option option" where
  "SharedPtr_get s this = (case strong s this of
      None \<Rightarrow> None
    | Some None \<Rightarrow> Some None
    | Some (Some a) \<Rightarrow> map_option (cb_get a) (block_at s a))"

text \<open>What \<open>operator*\<close> reads through an object address.\<close>

definition deref :: "('v, 'd, 'al) state \<Rightarrow> objptr \<Rightarrow> 'v option" where
  "deref s q = (case q of
      External n \<Rightarrow> None
    | ObjectIn a \<Rightarrow> (case block_at s a of
          None \<Rightarrow> None
        | Some b \<Rightarrow> (case derived b of
              ControlBlockWithMakeShared v al \<Rightarrow> Some v
            | ControlBlockWithoutMakeShared p d al \<Rightarrow> None)))"

text \<open>
  Lines 173 to 180: \<open>reset\<close> move-assigns from a temporary, which ends up holding nothing.
\<close>

definition SharedPtr_reset ::
  "('args, 'v, 'd, 'al) user \<Rightarrow> slot \<Rightarrow> ('v, 'd, 'al) state \<Rightarrow> ('v, 'd, 'al) result" where
  "SharedPtr_reset U this s = (case strong s this of
      None \<Rightarrow> Inl (NoSuchPointer, s)
    | Some old \<Rightarrow> SharedPtr_release U old (s\<lparr>strong := (strong s)(this \<mapsto> None)\<rparr>))"

definition SharedPtr_reset_ptr ::
  "('args, 'v, 'd, 'al) user \<Rightarrow> slot \<Rightarrow> objptr option \<Rightarrow> ('v, 'd, 'al) state \<Rightarrow> ('v, 'd, 'al) result" where
  "SharedPtr_reset_ptr U this p s = (case strong s this of
      None \<Rightarrow> Inl (NoSuchPointer, s)
    | Some old \<Rightarrow>
        (let (a, s1) = allocate s;
             s2 = set_block a \<lparr>shared_count = 1, weak_count = 0,
                    derived = ControlBlockWithoutMakeShared p (default_deleter U) (default_allocator U)\<rparr> s1
         in SharedPtr_release U old (s2\<lparr>strong := (strong s2)(this \<mapsto> Some a)\<rparr>)))"

text \<open>The destructor of the pointer object in slot \<open>this\<close>: the object is gone afterwards.\<close>

definition SharedPtr_dtor ::
  "('args, 'v, 'd, 'al) user \<Rightarrow> slot \<Rightarrow> ('v, 'd, 'al) state \<Rightarrow> ('v, 'd, 'al) result" where
  "SharedPtr_dtor U this s = (case strong s this of
      None \<Rightarrow> Inl (NoSuchPointer, s)
    | Some cb \<Rightarrow> SharedPtr_release U cb (s\<lparr>strong := (strong s)(this := None)\<rparr>))"

section \<open>WeakPtr\<close>

text \<open>The private constructor, lines 215 to 219.\<close>

definition WeakPtr_from_cb :: "addr option \<Rightarrow> ('v, 'd, 'al) state \<Rightarrow> ('v, 'd, 'al) result" where
  "WeakPtr_from_cb other_cb s = (case other_cb of
      None \<Rightarrow> Inr s
    | Some a \<Rightarrow> (case block_at s a of
          None \<Rightarrow> Inl (InvalidBlock, s)
        | Some b \<Rightarrow> Inr (set_block a (b\<lparr>weak_count := weak_count b + 1\<rparr>) s)))"

text \<open>
  The destructor, lines 292 to 298: \<open>use_count() + cb->weak_count == 0\<close> is a sum of two
  \<open>size_t\<close>.
\<close>

definition WeakPtr_release :: "addr option \<Rightarrow> ('v, 'd, 'al) state \<Rightarrow> ('v, 'd, 'al) result" where
  "WeakPtr_release cb s = (case cb of
      None \<Rightarrow> Inr s
    | Some a \<Rightarrow> (case block_at s a of
          None \<Rightarrow> Inl (InvalidBlock, s)
        | Some b \<Rightarrow>
            (let s1 = set_block a (b\<lparr>weak_count := weak_count b - 1\<rparr>) s in
             if shared_count b + (weak_count b - 1) = 0 then deallocate a s1 else Inr s1)))"

definition WeakPtr_default :: "slot \<Rightarrow> ('v, 'd, 'al) state \<Rightarrow> ('v, 'd, 'al) result" where
  "WeakPtr_default this s = (case weak s this of
      Some c \<Rightarrow> Inl (SlotInUse, s)
    | None \<Rightarrow> Inr (s\<lparr>weak := (weak s)(this \<mapsto> None)\<rparr>))"

text \<open>Lines 230 and 236.\<close>

definition WeakPtr_copy :: "slot \<Rightarrow> slot \<Rightarrow> ('v, 'd, 'al) state \<Rightarrow> ('v, 'd, 'al) result" where
  "WeakPtr_copy this other s = (case weak s this of
      Some c \<Rightarrow> Inl (SlotInUse, s)
    | None \<Rightarrow> (case weak s other of
          None \<Rightarrow> Inl (NoSuchPointer, s)
        | Some other_cb \<Rightarrow>
            and_then (WeakPtr_from_cb other_cb s)
              (\<lambda>s1. Inr (s1\<lparr>weak := (weak s1)(this \<mapsto> other_cb)\<rparr>))))"

text \<open>Line 233.\<close>

definition WeakPtr_from_shared :: "slot \<Rightarrow> slot \<Rightarrow> ('v, 'd, 'al) state \<Rightarrow> ('v, 'd, 'al) result" where
  "WeakPtr_from_shared this other s = (case weak s this of
      Some c \<Rightarrow> Inl (SlotInUse, s)
    | None \<Rightarrow> (case strong s other of
          None \<Rightarrow> Inl (NoSuchPointer, s)
        | Some other_cb \<Rightarrow>
            and_then (WeakPtr_from_cb other_cb s)
              (\<lambda>s1. Inr (s1\<lparr>weak := (weak s1)(this \<mapsto> other_cb)\<rparr>))))"

text \<open>Lines 238 to 245.\<close>

definition WeakPtr_move :: "slot \<Rightarrow> slot \<Rightarrow> ('v, 'd, 'al) state \<Rightarrow> ('v, 'd, 'al) result" where
  "WeakPtr_move this other s = (case weak s this of
      Some c \<Rightarrow> Inl (SlotInUse, s)
    | None \<Rightarrow> (case weak s other of
          None \<Rightarrow> Inl (NoSuchPointer, s)
        | Some other_cb \<Rightarrow>
            Inr (s\<lparr>weak := (weak s)(this \<mapsto> other_cb, other \<mapsto> None)\<rparr>)))"

text \<open>Lines 253 to 257 and 266 to 271: copy to a temporary, swap, destroy the temporary.\<close>

definition WeakPtr_copy_assign :: "slot \<Rightarrow> slot \<Rightarrow> ('v, 'd, 'al) state \<Rightarrow> ('v, 'd, 'al) result" where
  "WeakPtr_copy_assign this other s = (case weak s this of
      None \<Rightarrow> Inl (NoSuchPointer, s)
    | Some old \<Rightarrow> (case weak s other of
          None \<Rightarrow> Inl (NoSuchPointer, s)
        | Some tmp \<Rightarrow>
            and_then (WeakPtr_from_cb tmp s)
              (\<lambda>s1. WeakPtr_release old (s1\<lparr>weak := (weak s1)(this \<mapsto> tmp)\<rparr>))))"

text \<open>
  Lines 247 to 251: \<open>other_weak_ptr\<close> is a named reference, an lvalue, so
  \<open>WeakPtr new_ptr = other_weak_ptr\<close> calls the copy constructor of line 230; the rest is
  the swap and the destruction of the temporary.
\<close>

definition WeakPtr_move_assign :: "slot \<Rightarrow> slot \<Rightarrow> ('v, 'd, 'al) state \<Rightarrow> ('v, 'd, 'al) result" where
  "WeakPtr_move_assign this other s = (case weak s this of
      None \<Rightarrow> Inl (NoSuchPointer, s)
    | Some old \<Rightarrow> (case weak s other of
          None \<Rightarrow> Inl (NoSuchPointer, s)
        | Some new_ptr \<Rightarrow>
            and_then (WeakPtr_from_cb new_ptr s)
              (\<lambda>s1. WeakPtr_release old (s1\<lparr>weak := (weak s1)(this \<mapsto> new_ptr)\<rparr>))))"

text \<open>Lines 259 to 263 and 273 to 278.\<close>

definition WeakPtr_assign_shared :: "slot \<Rightarrow> slot \<Rightarrow> ('v, 'd, 'al) state \<Rightarrow> ('v, 'd, 'al) result" where
  "WeakPtr_assign_shared this other s = (case weak s this of
      None \<Rightarrow> Inl (NoSuchPointer, s)
    | Some old \<Rightarrow> (case strong s other of
          None \<Rightarrow> Inl (NoSuchPointer, s)
        | Some tmp \<Rightarrow>
            and_then (WeakPtr_from_cb tmp s)
              (\<lambda>s1. WeakPtr_release old (s1\<lparr>weak := (weak s1)(this \<mapsto> tmp)\<rparr>))))"

text \<open>Lines 280 to 286.\<close>

definition WeakPtr_use_count :: "('v, 'd, 'al) state \<Rightarrow> slot \<Rightarrow> size_t option" where
  "WeakPtr_use_count s this = (case weak s this of
      None \<Rightarrow> None
    | Some cb \<Rightarrow> cb_use_count s cb)"

definition WeakPtr_expired :: "('v, 'd, 'al) state \<Rightarrow> slot \<Rightarrow> bool option" where
  "WeakPtr_expired s this = map_option (\<lambda>n. n = 0) (WeakPtr_use_count s this)"

text \<open>
  Lines 288 to 290: the result is a new SharedPtr, which the caller receives in slot
  \<open>result\<close>.
\<close>

definition WeakPtr_lock :: "slot \<Rightarrow> slot \<Rightarrow> ('v, 'd, 'al) state \<Rightarrow> ('v, 'd, 'al) result" where
  "WeakPtr_lock result this s = (case strong s result of
      Some c \<Rightarrow> Inl (SlotInUse, s)
    | None \<Rightarrow> (case weak s this of
          None \<Rightarrow> Inl (NoSuchPointer, s)
        | Some cb \<Rightarrow> (case WeakPtr_expired s this of
              None \<Rightarrow> Inl (InvalidBlock, s)
            | Some True \<Rightarrow> Inr (s\<lparr>strong := (strong s)(result \<mapsto> None)\<rparr>)
            | Some False \<Rightarrow>
                and_then (SharedPtr_from_cb cb s)
                  (\<lambda>s1. Inr (s1\<lparr>strong := (strong s1)(result \<mapsto> cb)\<rparr>)))))"

definition WeakPtr_dtor :: "slot \<Rightarrow> ('v, 'd, 'al) state \<Rightarrow> ('v, 'd, 'al) result" where
  "WeakPtr_dtor this s = (case weak s this of
      None \<Rightarrow> Inl (NoSuchPointer, s)
    | Some cb \<Rightarrow> WeakPtr_release cb (s\<lparr>weak := (weak s)(this := None)\<rparr>))"

section \<open>Client programs\<close>

text \<open>
  A client program is a sequence of constructions, assignments and destructions of pointer
  objects, each named by its slot.
\<close>

datatype ('args, 'd, 'al) op =
    SharedDefault slot
  | SharedFromPtr slot "objptr option" 'd 'al
  | AllocateShared slot 'al 'args
  | MakeShared slot 'args
  | SharedCopy slot slot
  | SharedMove slot slot
  | SharedCopyAssign slot slot
  | SharedMoveAssign slot slot
  | SharedSwap slot slot
  | SharedReset slot
  | SharedResetPtr slot "objptr option"
  | SharedDtor slot
  | WeakDefault slot
  | WeakCopy slot slot
  | WeakFromShared slot slot
  | WeakMove slot slot
  | WeakCopyAssign slot slot
  | WeakMoveAssign slot slot
  | WeakAssignShared slot slot
  | WeakLock slot slot
  | WeakDtor slot

fun exec :: "('args, 'v, 'd, 'al) user \<Rightarrow> ('args, 'd, 'al) op \<Rightarrow> ('v, 'd, 'al) state \<Rightarrow> ('v, 'd, 'al) result" where
  "exec U (SharedDefault p) s = SharedPtr_default p s"
| "exec U (SharedFromPtr p q d al) s = SharedPtr_from_ptr U p q d al s"
| "exec U (AllocateShared p al args) s = allocateShared U p al args s"
| "exec U (MakeShared p args) s = makeShared U p args s"
| "exec U (SharedCopy p q) s = SharedPtr_copy p q s"
| "exec U (SharedMove p q) s = SharedPtr_move p q s"
| "exec U (SharedCopyAssign p q) s = SharedPtr_copy_assign U p q s"
| "exec U (SharedMoveAssign p q) s = SharedPtr_move_assign U p q s"
| "exec U (SharedSwap p q) s = SharedPtr_swap p q s"
| "exec U (SharedReset p) s = SharedPtr_reset U p s"
| "exec U (SharedResetPtr p q) s = SharedPtr_reset_ptr U p q s"
| "exec U (SharedDtor p) s = SharedPtr_dtor U p s"
| "exec U (WeakDefault w) s = WeakPtr_default w s"
| "exec U (WeakCopy w x) s = WeakPtr_copy w x s"
| "exec U (WeakFromShared w p) s = WeakPtr_from_shared w p s"
| "exec U (WeakMove w x) s = WeakPtr_move w x s"
| "exec U (WeakCopyAssign w x) s = WeakPtr_copy_assign w x s"
| "exec U (WeakMoveAssign w x) s = WeakPtr_move_assign w x s"
| "exec U (WeakAssignShared w p) s = WeakPtr_assign_shared w p s"
| "exec U (WeakLock p w) s = WeakPtr_lock p w s"
| "exec U (WeakDtor w) s = WeakPtr_dtor w s"

fun run :: "('args, 'v, 'd, 'al) user \<Rightarrow> ('args, 'd, 'al) op list \<Rightarrow> ('v, 'd, 'al) state \<Rightarrow> ('v, 'd, 'al) result" where
  "run U [] s = Inr s"
| "run U (x # xs) s = and_then (exec U x s) (run U xs)"

definition init :: "('v, 'd, 'al) state" where
  "init = \<lparr>heap = (\<lambda>a. None), next_addr = 0, strong = (\<lambda>p. None), weak = (\<lambda>w. None), log = []\<rparr>"

text \<open>
  A managed type whose destructor, and a deleter whose call, touch no pointer object of the
  program.
\<close>

definition plain :: "('args, 'v, 'd, 'al) user \<Rightarrow> bool" where
  "plain U \<longleftrightarrow> destruct_T U = (\<lambda>v. Inr) \<and> call_deleter U = (\<lambda>d x. Inr)"
section \<open>The counting invariant\<close>

text \<open>
  \<open>refs m a\<close> is the number of pointer objects of the store \<open>m\<close> that reference block
  \<open>a\<close>; \<open>held t a\<close> counts a temporary pointer (the local \<open>tmp\<close> or \<open>new_ptr\<close> of an
  assignment) whose field is \<open>t\<close>; \<open>events_of a l\<close> are the calls that the log \<open>l\<close> holds
  for block \<open>a\<close>, in order.
\<close>

definition refs :: "(slot \<Rightarrow> addr option option) \<Rightarrow> addr \<Rightarrow> nat" where
  "refs m a = card {p. m p = Some (Some a)}"

definition held :: "addr option \<Rightarrow> addr \<Rightarrow> nat" where
  "held t a = (if t = Some a then 1 else 0)"

definition events_of :: "addr \<Rightarrow> (addr \<times> 'd action) list \<Rightarrow> 'd action list" where
  "events_of a l = map snd (filter (\<lambda>e. fst e = a) l)"

text \<open>What one call of \<open>destroy()\<close> on a block adds to the log.\<close>

definition destroy_events :: "('v, 'd, 'al) block \<Rightarrow> 'd action list" where
  "destroy_events b = (case derived b of
      ControlBlockWithoutMakeShared p d al \<Rightarrow>
        (case p of None \<Rightarrow> [Destroy] | Some x \<Rightarrow> [Destroy, InvokeDeleter d x])
    | ControlBlockWithMakeShared v al \<Rightarrow> [Destroy, DestroyObject])"

text \<open>
  The state of one cell, given the numbers \<open>S\<close> and \<open>W\<close> of Strong and Weak Pointers that
  reference it and the calls \<open>evs\<close> logged for it. A live block has exactly these numbers
  in its counters, is referenced by somebody, and \<open>destroy()\<close> has run on it once if
  \<open>S = 0\<close> and not at all otherwise. A freed block is referenced by nobody and has seen one
  \<open>destroy()\<close> followed by one \<open>deallocate()\<close>. A cell that holds no block is referenced
  by nobody and has seen no call.
\<close>

fun cell_ok :: "nat \<Rightarrow> nat \<Rightarrow> 'd action list \<Rightarrow> ('v, 'd, 'al) cell option \<Rightarrow> bool" where
  "cell_ok S W evs None = (S = 0 \<and> W = 0 \<and> evs = [])"
| "cell_ok S W evs (Some Raw) = (S = 0 \<and> W = 0 \<and> evs = [])"
| "cell_ok S W evs (Some (Live b)) =
     (unat (shared_count b) = S \<and> unat (weak_count b) = W \<and> 0 < S + W \<and>
      evs = (if S = 0 then destroy_events b else []))"
| "cell_ok S W evs (Some (Freed b)) = (S = 0 \<and> W = 0 \<and> evs = destroy_events b @ [Deallocate])"

text \<open>
  The invariant of the library, with the temporaries \<open>t\<close> (strong) and \<open>w\<close> (weak) that an
  operation in progress holds: every cell is in order, and the allocator has handed out only
  addresses below \<open>next_addr\<close>.
\<close>

definition consistent :: "addr option \<Rightarrow> addr option \<Rightarrow> ('v, 'd, 'al) state \<Rightarrow> bool" where
  "consistent t w s \<longleftrightarrow>
     (\<forall>a. cell_ok (refs (strong s) a + held t a) (refs (weak s) a + held w a)
            (events_of a (log s)) (heap s a)) \<and>
     (\<forall>a. next_addr s \<le> a \<longrightarrow> heap s a = None)"

text \<open>
  The outcome of an operation is good when it leaves a consistent state behind and, if it
  failed, did not fail by touching a dead block.
\<close>

fun good :: "('v, 'd, 'al) result \<Rightarrow> bool" where
  "good (Inr s) = consistent None None s"
| "good (Inl (e, s)) = (e \<noteq> InvalidBlock \<and> consistent None None s)"

text \<open>
  A constructed control block stays constructed or freed, and its derived part (the managed
  object or pointer, the deleter, the allocator) never changes.
\<close>

definition kept :: "(addr \<Rightarrow> ('v, 'd, 'al) cell option) \<Rightarrow> (addr \<Rightarrow> ('v, 'd, 'al) cell option) \<Rightarrow> bool" where
  "kept h h' \<longleftrightarrow>
     (\<forall>a b. h a = Some (Live b) \<or> h a = Some (Freed b) \<longrightarrow>
        (\<exists>b'. (h' a = Some (Live b') \<or> h' a = Some (Freed b')) \<and> derived b' = derived b))"

section \<open>Observations and example programs\<close>

definition after :: "('v, 'd, 'al) result \<Rightarrow> ('v, 'd, 'al) state" where
  "after r = (case r of Inr s \<Rightarrow> s | Inl (e, s) \<Rightarrow> s)"

definition fault_of :: "('v, 'd, 'al) result \<Rightarrow> fault option" where
  "fault_of r = (case r of Inr s \<Rightarrow> None | Inl (e, s) \<Rightarrow> Some e)"

definition recorded_allocator :: "('v, 'd, 'al) result \<Rightarrow> addr \<Rightarrow> 'al option" where
  "recorded_allocator r a = map_option (\<lambda>b. rebind_alloc (derived b)) (block_at (after r) a)"

text \<open>
  A managed type of one natural number whose constructor throws on the argument 0; deleters
  and allocators are numbered, and the default-constructed ones have number 0.
\<close>

definition example_user :: "(nat, nat, nat, nat) user" where
  "example_user = \<lparr>construct_T = (\<lambda>n. if n = 0 then None else Some n),
      destruct_T = (\<lambda>v. Inr), call_deleter = (\<lambda>d x. Inr),
      default_deleter = 0, default_allocator = 0\<rparr>"

text \<open>Programs for the concrete instances below; the numbers are slots.\<close>

definition demo :: "(nat, nat, nat) op list" where
  "demo = [MakeShared 0 42, SharedCopy 1 0, SharedMove 2 0, SharedCopyAssign 0 1,
           SharedReset 2, WeakFromShared 5 0, SharedDtor 1]"


definition demo_lock :: "(nat, nat, nat) op list" where
  "demo_lock = [MakeShared 0 42, WeakFromShared 1 0, SharedCopy 2 0]"

definition demo_move :: "(nat, nat, nat) op list" where
  "demo_move = [MakeShared 0 42, MakeShared 1 43, SharedCopy 2 0]"

text \<open>The calls of a deleter that the log holds for block \<open>a\<close>.\<close>

definition deleter_calls :: "addr \<Rightarrow> ('v, 'd, 'al) state \<Rightarrow> 'd action list" where
  "deleter_calls a s =
     filter (\<lambda>e. case e of InvokeDeleter d x \<Rightarrow> True | _ \<Rightarrow> False) (events_of a (log s))"

definition demo_deleter :: "(nat, nat, nat) op list" where
  "demo_deleter = [SharedCopy 1 0, WeakFromShared 2 1, SharedDtor 0, WeakLock 3 2,
                   SharedDtor 1, SharedDtor 3, WeakDtor 2]"

definition deleter_s1 :: "(nat, nat, nat) state" where
  "deleter_s1 = after (run example_user [MakeShared 9 42] init)"

definition deleter_s2 :: "(nat, nat, nat) state" where
  "deleter_s2 = after (SharedPtr_from_ptr example_user 0 (Some (External 5)) 7 0 deleter_s1)"

definition deleter_s3 :: "(nat, nat, nat) state" where
  "deleter_s3 = after (run example_user demo_deleter deleter_s2)"

text \<open>
  A managed type \<open>Node\<close> that has a WeakPtr member: the value of the object is the slot of
  that member, and the destructor of \<open>Node\<close> destroys the member. The program makes a
  shared \<open>Node\<close>, lets its member observe the node itself, and destroys the only Strong
  Pointer:
  \<^verbatim>\<open>struct Node { WeakPtr<Node> self; };
  { SharedPtr<Node> p = makeShared<Node>(); p->self = p; }\<close>
  The member lives in slot 7 and \<open>p\<close> in slot 0; \<open>WeakDefault 7\<close> is the default
  construction of the member, which the constructor of \<open>Node\<close> performs.
\<close>

definition node_user :: "(slot, slot, nat, nat) user" where
  "node_user = \<lparr>construct_T = Some, destruct_T = WeakPtr_dtor, call_deleter = (\<lambda>d x. Inr),
      default_deleter = 0, default_allocator = 0\<rparr>"

definition node_program :: "(slot, nat, nat) op list" where
  "node_program = [MakeShared 0 7, WeakDefault 7, WeakAssignShared 7 0, SharedDtor 0]"

text \<open>
  A managed type \<open>Node\<close> that has a SharedPtr member: the value of the object is the slot
  of that member, and the destructor of \<open>Node\<close> destroys the member, which may in turn
  destroy the next \<open>Node\<close>; \<open>list_user n\<close> follows such a chain through \<open>n\<close> nested
  destructors. The program builds two nodes and links the first to the second:
  \<^verbatim>\<open>struct Node { SharedPtr<Node> next; };
  SharedPtr<Node> head = makeShared<Node>();  SharedPtr<Node> n = makeShared<Node>();
  head->next = n;\<close>
  \<open>head\<close> lives in slot 0 and \<open>n\<close> in slot 1; the members live in slots 10 and 11, and
  \<open>SharedDefault\<close> is their default construction by the constructor of \<open>Node\<close>.
\<close>

primrec list_user :: "nat \<Rightarrow> (slot, slot, nat, nat) user" where
  "list_user 0 = \<lparr>construct_T = Some, destruct_T = (\<lambda>v. Inr), call_deleter = (\<lambda>d x. Inr),
      default_deleter = 0, default_allocator = 0\<rparr>"
| "list_user (Suc n) = \<lparr>construct_T = Some, destruct_T = SharedPtr_dtor (list_user n),
      call_deleter = (\<lambda>d x. Inr), default_deleter = 0, default_allocator = 0\<rparr>"

definition list_program :: "(slot, nat, nat) op list" where
  "list_program = [MakeShared 0 10, SharedDefault 10, MakeShared 1 11, SharedDefault 11,
                   SharedCopyAssign 10 1]"



section \<open>Counting references\<close>

lemma card_slot: "card (UNIV :: slot set) = 2 ^ 61"
  by (simp add: card_word)

lemma refs_le: "refs m a \<le> 2 ^ 61"
proof -
  have "card {p. m p = Some (Some a)} \<le> card (UNIV :: slot set)"
    by (rule card_mono) (rule finite, rule subset_UNIV)
  then show ?thesis unfolding refs_def card_slot .
qed

lemma card_split: "card (A :: slot set) = card (A - {p}) + (if p \<in> A then 1 else 0)"
proof (cases "p \<in> A")
  case True
  have "finite A" by (rule finite)
  from card.remove [OF this True] True show ?thesis by (simp only: if_True)
next
  case False
  then have "A - {p} = A" by blast
  with False show ?thesis by (simp only: if_False add_0_right)
qed

lemma refs_upd:
  "refs (m(p := v)) a + (if m p = Some (Some a) then 1 else 0) =
   refs m a + (if v = Some (Some a) then 1 else 0)"
proof -
  let ?A = "{q. m q = Some (Some a)}"
  let ?B = "{q. (m(p := v)) q = Some (Some a)}"
  define x where "x = card (?A - {p})"
  have eq: "?B - {p} = ?A - {p}"
  proof (rule set_eqI)
    fix q show "q \<in> ?B - {p} \<longleftrightarrow> q \<in> ?A - {p}" by (cases "q = p") simp_all
  qed
  have a: "card ?A = x + (if m p = Some (Some a) then 1 else 0)"
    unfolding x_def using card_split [of ?A p] by simp
  have b: "card ?B = x + (if v = Some (Some a) then 1 else 0)"
    unfolding x_def eq [symmetric] using card_split [of ?B p] by simp
  show ?thesis unfolding refs_def by (simp only: a b ac_simps)
qed

lemma refs_pos: "m p = Some (Some a) \<Longrightarrow> 0 < refs m a"
  using refs_upd [of m p None a] by simp

lemma held_le: "held t a \<le> 1"
  by (simp add: held_def)

lemma events_of_snoc:
  "events_of a (l @ [(a', e)]) = events_of a l @ (if a' = a then [e] else [])"
  by (simp add: events_of_def)

lemma unat_incr:
  fixes x :: size_t
  assumes "unat x \<le> 2 ^ 61 + 1"
  shows "unat (x + 1) = unat x + 1"
  using assms by (simp add: unat_word_ariths)

lemma unat_decr:
  fixes x :: size_t
  assumes "0 < unat x"
  shows "unat (x - 1) = unat x - 1"
proof -
  have "x \<noteq> 0" using assms by auto
  then show ?thesis by (simp add: unat_minus_one)
qed

lemma word_sum_zero:
  fixes x y :: size_t
  assumes "unat x \<le> 2 ^ 61 + 1" "unat y \<le> 2 ^ 61 + 1"
  shows "x + y = 0 \<longleftrightarrow> unat x = 0 \<and> unat y = 0"
proof -
  have "unat x + unat y < 2 ^ 64" using assms by simp
  then have "unat (x + y) = unat x + unat y"
    by (simp add: unat_add_lem [THEN iffD1])
  then have "unat (x + y) = 0 \<longleftrightarrow> unat x = 0 \<and> unat y = 0" by simp
  then show ?thesis by (simp only: unat_eq_0)
qed

lemma decr_zero:
  fixes x :: size_t
  shows "x - 1 = 0 \<longleftrightarrow> unat x = 1"
proof -
  have "x - 1 = 0 \<longleftrightarrow> x = 1" by auto
  also have "\<dots> \<longleftrightarrow> unat x = 1" by (metis unat_1 word_unat_eq_iff)
  finally show ?thesis .
qed

text \<open>What the invariant says of a block that some pointer references.\<close>

lemma inv_referenced:
  assumes "consistent t w s"
      and "0 < refs (strong s) a + held t a + (refs (weak s) a + held w a)"
  shows "\<exists>b. heap s a = Some (Live b) \<and>
             unat (shared_count b) = refs (strong s) a + held t a \<and>
             unat (weak_count b) = refs (weak s) a + held w a \<and>
             events_of a (log s) = (if refs (strong s) a + held t a = 0 then destroy_events b else [])"
proof -
  from assms(1) have c: "cell_ok (refs (strong s) a + held t a) (refs (weak s) a + held w a)
            (events_of a (log s)) (heap s a)"
    by (simp add: consistent_def)
  show ?thesis
  proof (cases "heap s a")
    case None
    with c assms(2) show ?thesis by simp
  next
    case (Some c')
    with c assms(2) show ?thesis by (cases c') simp_all
  qed
qed

lemma held_None [simp]: "held None a = 0"
  by (simp add: held_def)

lemma held_Some [simp]: "held (Some a) a' = (if a = a' then 1 else 0)"
  by (simp add: held_def)

lemma inv_except:
  assumes "consistent t w s"
      and "\<And>a'. a' \<noteq> a \<Longrightarrow> heap s' a' = heap s a'"
      and "\<And>a'. a' \<noteq> a \<Longrightarrow> refs (strong s') a' + held t' a' = refs (strong s) a' + held t a'"
      and "\<And>a'. a' \<noteq> a \<Longrightarrow> refs (weak s') a' + held w' a' = refs (weak s) a' + held w a'"
      and "\<And>a'. a' \<noteq> a \<Longrightarrow> events_of a' (log s') = events_of a' (log s)"
      and "cell_ok (refs (strong s') a + held t' a) (refs (weak s') a + held w' a)
             (events_of a (log s')) (heap s' a)"
      and "a < next_addr s'" and "next_addr s \<le> next_addr s'"
  shows "consistent t' w' s'"
  unfolding consistent_def
proof (intro conjI allI impI)
  fix a'
  show "cell_ok (refs (strong s') a' + held t' a') (refs (weak s') a' + held w' a')
          (events_of a' (log s')) (heap s' a')"
  proof (cases "a' = a")
    case True
    then show ?thesis using assms(6) by simp
  next
    case False
    from assms(1) have "cell_ok (refs (strong s) a' + held t a') (refs (weak s) a' + held w a')
          (events_of a' (log s)) (heap s a')"
      by (simp add: consistent_def)
    then show ?thesis
      by (simp only: assms(2) [OF False] assms(3) [OF False] assms(4) [OF False] assms(5) [OF False])
  qed
next
  fix a'
  assume le: "next_addr s' \<le> a'"
  with assms(7) have ne: "a' \<noteq> a" by simp
  from le assms(8) have "next_addr s \<le> a'" by simp
  with assms(1) have "heap s a' = None" by (simp add: consistent_def)
  then show "heap s' a' = None" by (simp add: assms(2) [OF ne])
qed

lemma inv_allocated:
  assumes "consistent t w s" and "heap s a = Some c"
  shows "a < next_addr s"
proof (rule ccontr)
  assume "\<not> a < next_addr s"
  then have "next_addr s \<le> a" by simp
  with assms(1) have "heap s a = None" by (simp add: consistent_def)
  with assms(2) show False by simp
qed

lemma SharedPtr_from_cb_inv:
  assumes "consistent None w s" and "\<And>a. cb = Some a \<Longrightarrow> 0 < refs (strong s) a"
  shows "\<exists>s'. SharedPtr_from_cb cb s = Inr s' \<and> consistent cb w s' \<and>
              strong s' = strong s \<and> weak s' = weak s \<and> log s' = log s"
proof (cases cb)
  case None
  then show ?thesis using assms(1) by (simp add: SharedPtr_from_cb_def)
next
  case (Some a)
  with assms(2) have pos: "0 < refs (strong s) a" by simp
  from inv_referenced [OF assms(1), of a] pos obtain b where
    b: "heap s a = Some (Live b)" "unat (shared_count b) = refs (strong s) a"
       "unat (weak_count b) = refs (weak s) a + held w a" "events_of a (log s) = []"
    by auto
  let ?s' = "set_block a (b\<lparr>shared_count := shared_count b + 1\<rparr>) s"
  have r: "SharedPtr_from_cb cb s = Inr ?s'"
    using Some b(1) by (simp add: SharedPtr_from_cb_def block_at_def)
  have u: "unat (shared_count b + 1) = refs (strong s) a + 1"
    using unat_incr [of "shared_count b"] refs_le [of "strong s" a] b(2) by simp
  have "consistent (Some a) w ?s'"
  proof (rule inv_except [OF assms(1), where a = a])
    show "cell_ok (refs (strong ?s') a + held (Some a) a) (refs (weak ?s') a + held w a)
             (events_of a (log ?s')) (heap ?s' a)"
      using b u by (simp add: set_block_def)
    show "a < next_addr ?s'"
      using inv_allocated [OF assms(1) b(1)] by (simp add: set_block_def)
  qed (simp_all add: set_block_def)
  with r Some show ?thesis by (simp add: set_block_def)
qed

lemma WeakPtr_from_cb_inv:
  assumes "consistent t None s"
      and "\<And>a. cb = Some a \<Longrightarrow> 0 < refs (strong s) a + held t a + refs (weak s) a"
  shows "\<exists>s'. WeakPtr_from_cb cb s = Inr s' \<and> consistent t cb s' \<and>
              strong s' = strong s \<and> weak s' = weak s \<and> log s' = log s"
proof (cases cb)
  case None
  then show ?thesis using assms(1) by (simp add: WeakPtr_from_cb_def)
next
  case (Some a)
  with assms(2) have pos: "0 < refs (strong s) a + held t a + refs (weak s) a" by simp
  from inv_referenced [OF assms(1), of a] pos obtain b where
    b: "heap s a = Some (Live b)" "unat (shared_count b) = refs (strong s) a + held t a"
       "unat (weak_count b) = refs (weak s) a"
       "events_of a (log s) = (if refs (strong s) a + held t a = 0 then destroy_events b else [])"
    by auto
  let ?s' = "set_block a (b\<lparr>weak_count := weak_count b + 1\<rparr>) s"
  have r: "WeakPtr_from_cb cb s = Inr ?s'"
    using Some b(1) by (simp add: WeakPtr_from_cb_def block_at_def)
  have u: "unat (weak_count b + 1) = refs (weak s) a + 1"
    using unat_incr [of "weak_count b"] refs_le [of "weak s" a] b(3) by simp
  have "consistent t (Some a) ?s'"
  proof (rule inv_except [OF assms(1), where a = a])
    show "cell_ok (refs (strong ?s') a + held t a) (refs (weak ?s') a + held (Some a) a)
             (events_of a (log ?s')) (heap ?s' a)"
      using b u by (simp add: set_block_def destroy_events_def)
    show "a < next_addr ?s'"
      using inv_allocated [OF assms(1) b(1)] by (simp add: set_block_def)
  qed (simp_all add: set_block_def)
  with r Some show ?thesis by (simp add: set_block_def)
qed

lemma events_of_app:
  "events_of a' (l @ map (Pair a) evs) = events_of a' l @ (if a' = a then evs else [])"
  by (simp add: events_of_def filter_map comp_def)

lemma destroy_plain:
  assumes "plain U" and "block_at s a = Some b"
  shows "destroy U a s = Inr (s\<lparr>log := log s @ map (Pair a) (destroy_events b)\<rparr>)"
  using assms
  by (simp add: destroy_def plain_def destroy_events_def emit_def
           split: ControlBlock.splits option.splits)

lemma inv_fresh:
  assumes "consistent t w s"
  shows "heap s (next_addr s) = None" "refs (strong s) (next_addr s) = 0"
        "refs (weak s) (next_addr s) = 0" "events_of (next_addr s) (log s) = []"
        "held t (next_addr s) = 0" "held w (next_addr s) = 0"
proof -
  from assms show h: "heap s (next_addr s) = None" by (simp add: consistent_def)
  from assms have "cell_ok (refs (strong s) (next_addr s) + held t (next_addr s))
      (refs (weak s) (next_addr s) + held w (next_addr s))
      (events_of (next_addr s) (log s)) (heap s (next_addr s))"
    unfolding consistent_def by blast
  with h show "refs (strong s) (next_addr s) = 0" "refs (weak s) (next_addr s) = 0"
     "events_of (next_addr s) (log s) = []" "held t (next_addr s) = 0" "held w (next_addr s) = 0"
    by simp_all
qed

lemma allocate_block_inv:
  assumes "consistent None None s"
  shows "consistent (Some (next_addr s)) None
           (set_block (next_addr s) \<lparr>shared_count = 1, weak_count = 0, derived = d\<rparr> (snd (allocate s)))"
proof (rule inv_except [OF assms, where a = "next_addr s"])
  show "cell_ok
     (refs (strong (set_block (next_addr s) \<lparr>shared_count = 1, weak_count = 0, derived = d\<rparr> (snd (allocate s)))) (next_addr s) +
      held (Some (next_addr s)) (next_addr s))
     (refs (weak (set_block (next_addr s) \<lparr>shared_count = 1, weak_count = 0, derived = d\<rparr> (snd (allocate s)))) (next_addr s) +
      held None (next_addr s))
     (events_of (next_addr s) (log (set_block (next_addr s) \<lparr>shared_count = 1, weak_count = 0, derived = d\<rparr> (snd (allocate s)))))
     (heap (set_block (next_addr s) \<lparr>shared_count = 1, weak_count = 0, derived = d\<rparr> (snd (allocate s))) (next_addr s))"
    using inv_fresh [OF assms] by (simp add: set_block_def allocate_def)
qed (simp_all add: set_block_def allocate_def)

lemma allocate_raw_inv:
  assumes "consistent None None s"
  shows "consistent None None (snd (allocate s))"
proof (rule inv_except [OF assms, where a = "next_addr s"])
  show "cell_ok (refs (strong (snd (allocate s))) (next_addr s) + held None (next_addr s))
     (refs (weak (snd (allocate s))) (next_addr s) + held None (next_addr s))
     (events_of (next_addr s) (log (snd (allocate s))))
     (heap (snd (allocate s)) (next_addr s))"
    using inv_fresh [OF assms] by (simp add: allocate_def)
qed (simp_all add: allocate_def)

lemma inv_strong_upd:
  assumes "consistent t w s"
      and "\<And>a. (if strong s p = Some (Some a) then 1 else 0) + held t a =
               (if v = Some (Some a) then 1 else 0) + held t' a"
  shows "consistent t' w (s\<lparr>strong := (strong s)(p := v)\<rparr>)"
proof -
  have "refs ((strong s)(p := v)) a + held t' a = refs (strong s) a + held t a" for a
    using refs_upd [of "strong s" p v a] assms(2) [of a] by linarith
  with assms(1) show ?thesis by (simp add: consistent_def)
qed

lemma inv_weak_upd:
  assumes "consistent t w s"
      and "\<And>a. (if weak s p = Some (Some a) then 1 else 0) + held w a =
               (if v = Some (Some a) then 1 else 0) + held w' a"
  shows "consistent t w' (s\<lparr>weak := (weak s)(p := v)\<rparr>)"
proof -
  have "refs ((weak s)(p := v)) a + held w' a = refs (weak s) a + held w a" for a
    using refs_upd [of "weak s" p v a] assms(2) [of a] by linarith
  with assms(1) show ?thesis by (simp add: consistent_def)
qed

text \<open>A slot receives the temporary's reference and hands its own to the temporary.\<close>

lemma inv_strong_put:
  "consistent t w s \<Longrightarrow> strong s p = Some old \<Longrightarrow> consistent old w (s\<lparr>strong := (strong s)(p \<mapsto> t)\<rparr>)"
  by (rule inv_strong_upd) (auto simp: held_def)

lemma inv_strong_new:
  "consistent t w s \<Longrightarrow> strong s p = None \<Longrightarrow> consistent None w (s\<lparr>strong := (strong s)(p \<mapsto> t)\<rparr>)"
  by (rule inv_strong_upd) (auto simp: held_def)

lemma inv_strong_del:
  "consistent None w s \<Longrightarrow> strong s p = Some old \<Longrightarrow> consistent old w (s\<lparr>strong := (strong s)(p := None)\<rparr>)"
  by (rule inv_strong_upd) (auto simp: held_def)

lemma inv_weak_put:
  "consistent t w s \<Longrightarrow> weak s p = Some old \<Longrightarrow> consistent t old (s\<lparr>weak := (weak s)(p \<mapsto> w)\<rparr>)"
  by (rule inv_weak_upd) (auto simp: held_def)

lemma inv_weak_new:
  "consistent t w s \<Longrightarrow> weak s p = None \<Longrightarrow> consistent t None (s\<lparr>weak := (weak s)(p \<mapsto> w)\<rparr>)"
  by (rule inv_weak_upd) (auto simp: held_def)

lemma inv_weak_del:
  "consistent t None s \<Longrightarrow> weak s p = Some old \<Longrightarrow> consistent t old (s\<lparr>weak := (weak s)(p := None)\<rparr>)"
  by (rule inv_weak_upd) (auto simp: held_def)

lemma events_of_append [simp]: "events_of a (l @ l') = events_of a l @ events_of a l'"
  by (simp add: events_of_def)

lemma events_of_map_Pair [simp]: "events_of a' (map (Pair a) evs) = (if a' = a then evs else [])"
  by (simp add: events_of_def filter_map comp_def)

lemma events_of_single [simp]: "events_of a' [(a, e)] = (if a' = a then [e] else [])"
  by (simp add: events_of_def)

lemma destroy_events_counts [simp]:
  "destroy_events (b\<lparr>shared_count := n\<rparr>) = destroy_events b"
  "destroy_events (b\<lparr>weak_count := n\<rparr>) = destroy_events b"
  by (simp_all add: destroy_events_def)

lemma SharedPtr_release_inv:
  assumes "plain U" and "consistent cb w s"
  shows "\<exists>s'. SharedPtr_release U cb s = Inr s' \<and> consistent None w s' \<and>
              strong s' = strong s \<and> weak s' = weak s \<and>
              (\<forall>a'. cb \<noteq> Some a' \<longrightarrow> heap s' a' = heap s a')"
proof (cases cb)
  case None
  then show ?thesis using assms(2) by (simp add: SharedPtr_release_def)
next
  case (Some a)
  have i: "consistent (Some a) w s" using assms(2) Some by simp
  from inv_referenced [OF i, of a] obtain b where
    b: "heap s a = Some (Live b)" "unat (shared_count b) = refs (strong s) a + 1"
       "unat (weak_count b) = refs (weak s) a + held w a" "events_of a (log s) = []"
    by auto
  let ?b1 = "b\<lparr>shared_count := shared_count b - 1\<rparr>"
  let ?s1 = "set_block a ?b1 s"
  have lt: "a < next_addr s" by (rule inv_allocated [OF i b(1)])
  have u: "unat (shared_count b - 1) = refs (strong s) a"
    using unat_decr [of "shared_count b"] b(2) by simp
  have z: "shared_count b - 1 = 0 \<longleftrightarrow> refs (strong s) a = 0"
    using decr_zero [of "shared_count b"] b(2) by simp
  show ?thesis
  proof (cases "refs (strong s) a = 0")
    case False
    have r: "SharedPtr_release U cb s = Inr ?s1"
      using Some b(1) z False by (simp add: SharedPtr_release_def block_at_def Let_def)
    have "consistent None w ?s1"
    proof (rule inv_except [OF i, where a = a])
      show "cell_ok (refs (strong ?s1) a + held None a) (refs (weak ?s1) a + held w a)
             (events_of a (log ?s1)) (heap ?s1 a)"
        using b u False by (simp add: set_block_def)
      show "a < next_addr ?s1" using lt by (simp add: set_block_def)
    qed (simp_all add: set_block_def)
    with r Some show ?thesis by (simp add: set_block_def)
  next
    case True
    let ?s2 = "?s1\<lparr>log := log ?s1 @ map (Pair a) (destroy_events ?b1)\<rparr>"
    have d: "destroy U a ?s1 = Inr ?s2"
      by (rule destroy_plain [OF assms(1)]) (simp add: block_at_def set_block_def)
    have b2: "block_at ?s2 a = Some ?b1"
      by (simp add: block_at_def set_block_def)
    show ?thesis
    proof (cases "weak_count b = 0")
      case False
      then have w: "0 < refs (weak s) a + held w a"
        using b(3) by (metis unat_eq_0 gr0I)
      have r: "SharedPtr_release U cb s = Inr ?s2"
        using Some b(1) z True d b2 False
        by (simp add: SharedPtr_release_def block_at_def Let_def and_then_def)
      have "consistent None w ?s2"
      proof (rule inv_except [OF i, where a = a])
        show "cell_ok (refs (strong ?s2) a + held None a) (refs (weak ?s2) a + held w a)
               (events_of a (log ?s2)) (heap ?s2 a)"
          using b u True w by (simp add: set_block_def)
        show "a < next_addr ?s2" using lt by (simp add: set_block_def)
      qed (simp_all add: set_block_def)
      with r Some show ?thesis by (simp add: set_block_def)
    next
      case wz: True
      then have w: "refs (weak s) a + held w a = 0"
        using b(3) by simp
      let ?s3 = "emit a Deallocate (?s2\<lparr>heap := (heap ?s2)(a \<mapsto> Freed ?b1)\<rparr>)"
      have dd: "deallocate a ?s2 = Inr ?s3"
        using b2 by (simp add: deallocate_def)
      have r: "SharedPtr_release U cb s = Inr ?s3"
        using Some b(1) z True d b2 wz dd
        by (simp add: SharedPtr_release_def block_at_def Let_def and_then_def)
      have "consistent None w ?s3"
      proof (rule inv_except [OF i, where a = a])
        show "cell_ok (refs (strong ?s3) a + held None a) (refs (weak ?s3) a + held w a)
               (events_of a (log ?s3)) (heap ?s3 a)"
          using b u True w by (simp add: set_block_def emit_def)
        show "a < next_addr ?s3" using lt by (simp add: set_block_def emit_def)
      qed (simp_all add: set_block_def emit_def)
      with r Some show ?thesis by (simp add: set_block_def emit_def)
    qed
  qed
qed

lemma WeakPtr_release_inv:
  assumes "consistent t cb s"
  shows "\<exists>s'. WeakPtr_release cb s = Inr s' \<and> consistent t None s' \<and>
              strong s' = strong s \<and> weak s' = weak s \<and>
              (\<forall>a'. cb \<noteq> Some a' \<longrightarrow> heap s' a' = heap s a')"
proof (cases cb)
  case None
  then show ?thesis using assms by (simp add: WeakPtr_release_def)
next
  case (Some a)
  have i: "consistent t (Some a) s" using assms Some by simp
  from inv_referenced [OF i, of a] obtain b where
    b: "heap s a = Some (Live b)" "unat (shared_count b) = refs (strong s) a + held t a"
       "unat (weak_count b) = refs (weak s) a + 1"
       "events_of a (log s) = (if refs (strong s) a + held t a = 0 then destroy_events b else [])"
    by auto
  let ?b1 = "b\<lparr>weak_count := weak_count b - 1\<rparr>"
  let ?s1 = "set_block a ?b1 s"
  have lt: "a < next_addr s" by (rule inv_allocated [OF i b(1)])
  have u: "unat (weak_count b - 1) = refs (weak s) a"
    using unat_decr [of "weak_count b"] b(3) by simp
  have "unat (shared_count b) \<le> 2 ^ 61 + 1"
    using b(2) refs_le [of "strong s" a] held_le [of t a] by linarith
  moreover have "unat (weak_count b - 1) \<le> 2 ^ 61 + 1"
    using u refs_le [of "weak s" a] by linarith
  ultimately have z: "shared_count b + (weak_count b - 1) = 0 \<longleftrightarrow>
      refs (strong s) a + held t a = 0 \<and> refs (weak s) a = 0"
    using word_sum_zero [of "shared_count b" "weak_count b - 1"] b(2) u by simp
  show ?thesis
  proof (cases "refs (strong s) a + held t a = 0 \<and> refs (weak s) a = 0")
    case False
    with z have nz: "shared_count b + (weak_count b - 1) \<noteq> 0" by blast
    have r: "WeakPtr_release cb s = Inr ?s1"
      using Some b(1) nz by (simp add: WeakPtr_release_def block_at_def Let_def)
    have "consistent t None ?s1"
    proof (rule inv_except [OF i, where a = a])
      show "cell_ok (refs (strong ?s1) a + held t a) (refs (weak ?s1) a + held None a)
             (events_of a (log ?s1)) (heap ?s1 a)"
        using b u False by (auto simp add: set_block_def)
      show "a < next_addr ?s1" using lt by (simp add: set_block_def)
    qed (simp_all add: set_block_def)
    with r Some show ?thesis by (simp add: set_block_def)
  next
    case True
    let ?s3 = "emit a Deallocate (?s1\<lparr>heap := (heap ?s1)(a \<mapsto> Freed ?b1)\<rparr>)"
    have dd: "deallocate a ?s1 = Inr ?s3"
      by (simp add: deallocate_def block_at_def set_block_def)
    from z True have ez: "shared_count b + (weak_count b - 1) = 0" by blast
    have r: "WeakPtr_release cb s = Inr ?s3"
      using Some b(1) ez dd by (simp add: WeakPtr_release_def block_at_def Let_def)
    have "consistent t None ?s3"
    proof (rule inv_except [OF i, where a = a])
      show "cell_ok (refs (strong ?s3) a + held t a) (refs (weak ?s3) a + held None a)
             (events_of a (log ?s3)) (heap ?s3 a)"
        using b u True by (simp add: set_block_def emit_def)
      show "a < next_addr ?s3" using lt by (simp add: set_block_def emit_def)
    qed (simp_all add: set_block_def emit_def)
    with r Some show ?thesis by (simp add: set_block_def emit_def)
  qed
qed

lemma SharedPtr_default_good:
  assumes "consistent None None s"
  shows "good (SharedPtr_default this s)"
  using assms inv_strong_new [of None None s this]
  by (simp add: SharedPtr_default_def split: option.splits)

lemma WeakPtr_default_good:
  assumes "consistent None None s"
  shows "good (WeakPtr_default this s)"
  using assms inv_weak_new [of None None s this]
  by (simp add: WeakPtr_default_def split: option.splits)

lemma SharedPtr_copy_good:
  assumes "consistent None None s"
  shows "good (SharedPtr_copy this other s)"
proof (cases "strong s this")
  case (Some c)
  then show ?thesis using assms by (simp add: SharedPtr_copy_def)
next
  case None
  show ?thesis
  proof (cases "strong s other")
    case n: None
    then show ?thesis using assms None by (simp add: SharedPtr_copy_def)
  next
    case (Some cb)
    have "\<And>a. cb = Some a \<Longrightarrow> 0 < refs (strong s) a"
      using Some by (simp add: refs_pos)
    from SharedPtr_from_cb_inv [OF assms this] obtain s1 where
      s1: "SharedPtr_from_cb cb s = Inr s1" "consistent cb None s1" "strong s1 = strong s"
      by blast
    have "strong s1 this = None" using s1(3) None by simp
    with s1(2) have "consistent None None (s1\<lparr>strong := (strong s1)(this \<mapsto> cb)\<rparr>)"
      by (rule inv_strong_new)
    then show ?thesis
      using None Some s1(1) by (simp add: SharedPtr_copy_def and_then_def)
  qed
qed

lemma SharedPtr_from_ptr_good:
  assumes "consistent None None s"
  shows "good (SharedPtr_from_ptr U this p d al s)"
proof (cases "strong s this")
  case (Some c)
  then show ?thesis using assms by (simp add: SharedPtr_from_ptr_def)
next
  case None
  let ?s2 = "set_block (next_addr s) \<lparr>shared_count = 1, weak_count = 0,
               derived = ControlBlockWithoutMakeShared p d (default_allocator U)\<rparr> (snd (allocate s))"
  have "consistent (Some (next_addr s)) None ?s2" by (rule allocate_block_inv [OF assms])
  moreover have "strong ?s2 this = None" using None by (simp add: set_block_def allocate_def)
  ultimately have "consistent None None (?s2\<lparr>strong := (strong ?s2)(this \<mapsto> Some (next_addr s))\<rparr>)"
    by (rule inv_strong_new)
  then show ?thesis
    using None by (simp add: SharedPtr_from_ptr_def allocate_def Let_def)
qed

lemma SharedPtr_emplace_good:
  assumes "consistent None None s"
  shows "good (SharedPtr_emplace U this 1 0 al args s)"
proof (cases "strong s this")
  case (Some c)
  then show ?thesis using assms by (simp add: SharedPtr_emplace_def)
next
  case None
  show ?thesis
  proof (cases "construct_T U args")
    case n: None
    have "consistent None None (snd (allocate s))" by (rule allocate_raw_inv [OF assms])
    then show ?thesis using None n by (simp add: SharedPtr_emplace_def allocate_def)
  next
    case (Some v)
    let ?s2 = "set_block (next_addr s) \<lparr>shared_count = 1, weak_count = 0,
               derived = ControlBlockWithMakeShared v al\<rparr> (snd (allocate s))"
    have "consistent (Some (next_addr s)) None ?s2" by (rule allocate_block_inv [OF assms])
    moreover have "strong ?s2 this = None" using None by (simp add: set_block_def allocate_def)
    ultimately have "consistent None None (?s2\<lparr>strong := (strong ?s2)(this \<mapsto> Some (next_addr s))\<rparr>)"
      by (rule inv_strong_new)
    then show ?thesis
      using None Some by (simp add: SharedPtr_emplace_def allocate_def Let_def)
  qed
qed

lemma SharedPtr_move_good:
  assumes "consistent None None s"
  shows "good (SharedPtr_move this other s)"
proof (cases "strong s this")
  case (Some c)
  then show ?thesis using assms by (simp add: SharedPtr_move_def)
next
  case None
  show ?thesis
  proof (cases "strong s other")
    case n: None
    then show ?thesis using assms None by (simp add: SharedPtr_move_def)
  next
    case (Some cb)
    with None have ne: "this \<noteq> other" by auto
    let ?s1 = "s\<lparr>strong := (strong s)(other \<mapsto> None)\<rparr>"
    have "consistent cb None ?s1" using assms Some by (rule inv_strong_put)
    moreover have "strong ?s1 this = None" using None ne by simp
    ultimately have "consistent None None (?s1\<lparr>strong := (strong ?s1)(this \<mapsto> cb)\<rparr>)"
      by (rule inv_strong_new)
    moreover have "(strong s)(other \<mapsto> None, this \<mapsto> cb) = (strong s)(this \<mapsto> cb, other \<mapsto> None)"
      using ne by (simp add: fun_upd_twist)
    ultimately show ?thesis
      using None Some by (simp add: SharedPtr_move_def)
  qed
qed

lemma SharedPtr_move_assign_good:
  assumes "plain U" and "consistent None None s"
  shows "good (SharedPtr_move_assign U this other s)"
proof (cases "strong s this")
  case None
  then show ?thesis using assms by (simp add: SharedPtr_move_assign_def)
next
  case (Some c)
  show ?thesis
  proof (cases "strong s other")
    case None
    then show ?thesis using assms Some by (simp add: SharedPtr_move_assign_def)
  next
    case o: (Some new_ptr)
    let ?s1 = "s\<lparr>strong := (strong s)(other \<mapsto> None)\<rparr>"
    have i1: "consistent new_ptr None ?s1" using assms(2) o by (rule inv_strong_put)
    obtain old where old: "strong ?s1 this = Some old" using Some by (cases "this = other") simp_all
    let ?s2 = "?s1\<lparr>strong := (strong ?s1)(this \<mapsto> new_ptr)\<rparr>"
    have "consistent old None ?s2" using i1 old by (rule inv_strong_put)
    from SharedPtr_release_inv [OF assms(1) this] obtain s' where
      "SharedPtr_release U old ?s2 = Inr s'" "consistent None None s'" by blast
    then show ?thesis
      using Some o old by (simp add: SharedPtr_move_assign_def Let_def)
  qed
qed

lemma SharedPtr_copy_assign_good:
  assumes "plain U" and "consistent None None s"
  shows "good (SharedPtr_copy_assign U this other s)"
proof (cases "strong s this")
  case None
  then show ?thesis using assms by (simp add: SharedPtr_copy_assign_def)
next
  case (Some old)
  show ?thesis
  proof (cases "strong s other")
    case None
    then show ?thesis using assms Some by (simp add: SharedPtr_copy_assign_def)
  next
    case o: (Some tmp)
    have "\<And>a. tmp = Some a \<Longrightarrow> 0 < refs (strong s) a"
      using o by (simp add: refs_pos)
    from SharedPtr_from_cb_inv [OF assms(2) this] obtain s1 where
      s1: "SharedPtr_from_cb tmp s = Inr s1" "consistent tmp None s1" "strong s1 = strong s"
      by blast
    let ?s2 = "s1\<lparr>strong := (strong s1)(this \<mapsto> tmp)\<rparr>"
    have "strong s1 this = Some old" using s1(3) Some by simp
    with s1(2) have "consistent old None ?s2" by (rule inv_strong_put)
    from SharedPtr_release_inv [OF assms(1) this] obtain s' where
      "SharedPtr_release U old ?s2 = Inr s'" "consistent None None s'" by blast
    then show ?thesis
      using Some o s1(1) by (simp add: SharedPtr_copy_assign_def and_then_def)
  qed
qed

lemma SharedPtr_swap_good:
  assumes "consistent None None s"
  shows "good (SharedPtr_swap this other s)"
proof (cases "strong s this")
  case None
  then show ?thesis using assms by (simp add: SharedPtr_swap_def)
next
  case (Some c)
  show ?thesis
  proof (cases "strong s other")
    case None
    then show ?thesis using assms Some by (simp add: SharedPtr_swap_def)
  next
    case o: (Some c')
    show ?thesis
    proof (cases "this = other")
      case True
      with Some o have "s\<lparr>strong := (strong s)(this \<mapsto> c', other \<mapsto> c)\<rparr> = s"
        by (simp add: fun_upd_idem)
      then show ?thesis using assms Some o by (simp add: SharedPtr_swap_def)
    next
      case False
      let ?s1 = "s\<lparr>strong := (strong s)(other \<mapsto> None)\<rparr>"
      have i1: "consistent c' None ?s1" using assms o by (rule inv_strong_put)
      have "strong ?s1 this = Some c" using Some False by simp
      let ?s2 = "?s1\<lparr>strong := (strong ?s1)(this \<mapsto> c')\<rparr>"
      have i2: "consistent c None ?s2" using i1 \<open>strong ?s1 this = Some c\<close> by (rule inv_strong_put)
      have "strong ?s2 other = Some None" using False by simp
      let ?s3 = "?s2\<lparr>strong := (strong ?s2)(other \<mapsto> c)\<rparr>"
      have i3: "consistent None None ?s3" using i2 \<open>strong ?s2 other = Some None\<close> by (rule inv_strong_put)
      have "?s3 = s\<lparr>strong := (strong s)(this \<mapsto> c', other \<mapsto> c)\<rparr>"
        using False by (simp add: fun_upd_twist)
      with i3 show ?thesis
        using Some o by (simp add: SharedPtr_swap_def)
    qed
  qed
qed

lemma SharedPtr_reset_good:
  assumes "plain U" and "consistent None None s"
  shows "good (SharedPtr_reset U this s)"
proof (cases "strong s this")
  case None
  then show ?thesis using assms by (simp add: SharedPtr_reset_def)
next
  case (Some old)
  let ?s1 = "s\<lparr>strong := (strong s)(this \<mapsto> None)\<rparr>"
  have "consistent old None ?s1" using assms(2) Some by (rule inv_strong_put)
  from SharedPtr_release_inv [OF assms(1) this] obtain s' where
    "SharedPtr_release U old ?s1 = Inr s'" "consistent None None s'" by blast
  then show ?thesis using Some by (simp add: SharedPtr_reset_def)
qed

lemma SharedPtr_reset_ptr_good:
  assumes "plain U" and "consistent None None s"
  shows "good (SharedPtr_reset_ptr U this p s)"
proof (cases "strong s this")
  case None
  then show ?thesis using assms by (simp add: SharedPtr_reset_ptr_def)
next
  case (Some old)
  let ?s2 = "set_block (next_addr s) \<lparr>shared_count = 1, weak_count = 0,
     derived = ControlBlockWithoutMakeShared p (default_deleter U) (default_allocator U)\<rparr> (snd (allocate s))"
  have "consistent (Some (next_addr s)) None ?s2" by (rule allocate_block_inv [OF assms(2)])
  moreover have "strong ?s2 this = Some old" using Some by (simp add: set_block_def allocate_def)
  ultimately have "consistent old None (?s2\<lparr>strong := (strong ?s2)(this \<mapsto> Some (next_addr s))\<rparr>)"
    by (rule inv_strong_put)
  from SharedPtr_release_inv [OF assms(1) this] obtain s' where
    "SharedPtr_release U old (?s2\<lparr>strong := (strong ?s2)(this \<mapsto> Some (next_addr s))\<rparr>) = Inr s'"
    "consistent None None s'" by blast
  then show ?thesis using Some by (simp add: SharedPtr_reset_ptr_def allocate_def Let_def)
qed

lemma SharedPtr_dtor_good:
  assumes "plain U" and "consistent None None s"
  shows "good (SharedPtr_dtor U this s)"
proof (cases "strong s this")
  case None
  then show ?thesis using assms by (simp add: SharedPtr_dtor_def)
next
  case (Some cb)
  let ?s1 = "s\<lparr>strong := (strong s)(this := None)\<rparr>"
  have "consistent cb None ?s1" using assms(2) Some by (rule inv_strong_del)
  from SharedPtr_release_inv [OF assms(1) this] obtain s' where
    "SharedPtr_release U cb ?s1 = Inr s'" "consistent None None s'" by blast
  then show ?thesis using Some by (simp add: SharedPtr_dtor_def)
qed

lemma WeakPtr_copy_good:
  assumes "consistent None None s"
  shows "good (WeakPtr_copy this other s)"
proof (cases "weak s this")
  case (Some c)
  then show ?thesis using assms by (simp add: WeakPtr_copy_def)
next
  case None
  show ?thesis
  proof (cases "weak s other")
    case n: None
    then show ?thesis using assms None by (simp add: WeakPtr_copy_def)
  next
    case (Some cb)
    have "\<And>a. cb = Some a \<Longrightarrow> 0 < refs (strong s) a + held None a + refs (weak s) a"
      using Some by (simp add: refs_pos)
    from WeakPtr_from_cb_inv [OF assms this] obtain s1 where
      s1: "WeakPtr_from_cb cb s = Inr s1" "consistent None cb s1" "weak s1 = weak s"
      by blast
    have "weak s1 this = None" using s1(3) None by simp
    with s1(2) have "consistent None None (s1\<lparr>weak := (weak s1)(this \<mapsto> cb)\<rparr>)"
      by (rule inv_weak_new)
    then show ?thesis
      using None Some s1(1) by (simp add: WeakPtr_copy_def and_then_def)
  qed
qed

lemma WeakPtr_from_shared_good:
  assumes "consistent None None s"
  shows "good (WeakPtr_from_shared this other s)"
proof (cases "weak s this")
  case (Some c)
  then show ?thesis using assms by (simp add: WeakPtr_from_shared_def)
next
  case None
  show ?thesis
  proof (cases "strong s other")
    case n: None
    then show ?thesis using assms None by (simp add: WeakPtr_from_shared_def)
  next
    case (Some cb)
    have "\<And>a. cb = Some a \<Longrightarrow> 0 < refs (strong s) a + held None a + refs (weak s) a"
      using Some by (simp add: refs_pos)
    from WeakPtr_from_cb_inv [OF assms this] obtain s1 where
      s1: "WeakPtr_from_cb cb s = Inr s1" "consistent None cb s1" "weak s1 = weak s"
      by blast
    have "weak s1 this = None" using s1(3) None by simp
    with s1(2) have "consistent None None (s1\<lparr>weak := (weak s1)(this \<mapsto> cb)\<rparr>)"
      by (rule inv_weak_new)
    then show ?thesis
      using None Some s1(1) by (simp add: WeakPtr_from_shared_def and_then_def)
  qed
qed

lemma WeakPtr_move_good:
  assumes "consistent None None s"
  shows "good (WeakPtr_move this other s)"
proof (cases "weak s this")
  case (Some c)
  then show ?thesis using assms by (simp add: WeakPtr_move_def)
next
  case None
  show ?thesis
  proof (cases "weak s other")
    case n: None
    then show ?thesis using assms None by (simp add: WeakPtr_move_def)
  next
    case (Some cb)
    with None have ne: "this \<noteq> other" by auto
    let ?s1 = "s\<lparr>weak := (weak s)(other \<mapsto> None)\<rparr>"
    have "consistent None cb ?s1" using assms Some by (rule inv_weak_put)
    moreover have "weak ?s1 this = None" using None ne by simp
    ultimately have "consistent None None (?s1\<lparr>weak := (weak ?s1)(this \<mapsto> cb)\<rparr>)"
      by (rule inv_weak_new)
    moreover have "(weak s)(other \<mapsto> None, this \<mapsto> cb) = (weak s)(this \<mapsto> cb, other \<mapsto> None)"
      using ne by (simp add: fun_upd_twist)
    ultimately show ?thesis
      using None Some by (simp add: WeakPtr_move_def)
  qed
qed

text \<open>The three assignments of a WeakPtr share their second half.\<close>

lemma WeakPtr_assign_tail:
  assumes "consistent None None s" and "weak s this = Some old"
      and "\<And>a. tmp = Some a \<Longrightarrow> 0 < refs (strong s) a + refs (weak s) a"
  shows "\<exists>s'. and_then (WeakPtr_from_cb tmp s)
           (\<lambda>s1. WeakPtr_release old (s1\<lparr>weak := (weak s1)(this \<mapsto> tmp)\<rparr>)) = Inr s' \<and>
           consistent None None s' \<and> strong s' = strong s \<and> weak s' = (weak s)(this \<mapsto> tmp)"
proof -
  have "\<And>a. tmp = Some a \<Longrightarrow> 0 < refs (strong s) a + held None a + refs (weak s) a"
    using assms(3) by simp
  from WeakPtr_from_cb_inv [OF assms(1) this] obtain s1 where
    s1: "WeakPtr_from_cb tmp s = Inr s1" "consistent None tmp s1" "weak s1 = weak s"
        "strong s1 = strong s"
    by blast
  have "weak s1 this = Some old" using s1(3) assms(2) by simp
  with s1(2) have "consistent None old (s1\<lparr>weak := (weak s1)(this \<mapsto> tmp)\<rparr>)"
    by (rule inv_weak_put)
  from WeakPtr_release_inv [OF this] obtain s' where
    "WeakPtr_release old (s1\<lparr>weak := (weak s1)(this \<mapsto> tmp)\<rparr>) = Inr s'" "consistent None None s'"
    "strong s' = strong (s1\<lparr>weak := (weak s1)(this \<mapsto> tmp)\<rparr>)"
    "weak s' = weak (s1\<lparr>weak := (weak s1)(this \<mapsto> tmp)\<rparr>)"
    by blast
  then show ?thesis using s1 by (simp add: and_then_def)
qed

lemma WeakPtr_copy_assign_good:
  assumes "consistent None None s"
  shows "good (WeakPtr_copy_assign this other s)"
proof (cases "weak s this")
  case None
  then show ?thesis using assms by (simp add: WeakPtr_copy_assign_def)
next
  case (Some old)
  show ?thesis
  proof (cases "weak s other")
    case None
    then show ?thesis using assms Some by (simp add: WeakPtr_copy_assign_def)
  next
    case o: (Some tmp)
    have "\<And>a. tmp = Some a \<Longrightarrow> 0 < refs (strong s) a + refs (weak s) a"
      using o by (simp add: refs_pos)
    from WeakPtr_assign_tail [where tmp = tmp, OF assms Some this] obtain s' where
      "and_then (WeakPtr_from_cb tmp s)
         (\<lambda>s1. WeakPtr_release old (s1\<lparr>weak := (weak s1)(this \<mapsto> tmp)\<rparr>)) = Inr s'"
      "consistent None None s'" by blast
    then show ?thesis
      using Some o by (simp add: WeakPtr_copy_assign_def)
  qed
qed

lemma WeakPtr_move_assign_good:
  assumes "consistent None None s"
  shows "good (WeakPtr_move_assign this other s)"
proof (cases "weak s this")
  case None
  then show ?thesis using assms by (simp add: WeakPtr_move_assign_def)
next
  case (Some old)
  show ?thesis
  proof (cases "weak s other")
    case None
    then show ?thesis using assms Some by (simp add: WeakPtr_move_assign_def)
  next
    case o: (Some tmp)
    have "\<And>a. tmp = Some a \<Longrightarrow> 0 < refs (strong s) a + refs (weak s) a"
      using o by (simp add: refs_pos)
    from WeakPtr_assign_tail [where tmp = tmp, OF assms Some this] obtain s' where
      "and_then (WeakPtr_from_cb tmp s)
         (\<lambda>s1. WeakPtr_release old (s1\<lparr>weak := (weak s1)(this \<mapsto> tmp)\<rparr>)) = Inr s'"
      "consistent None None s'" by blast
    then show ?thesis
      using Some o by (simp add: WeakPtr_move_assign_def)
  qed
qed

lemma WeakPtr_assign_shared_good:
  assumes "consistent None None s"
  shows "good (WeakPtr_assign_shared this other s)"
proof (cases "weak s this")
  case None
  then show ?thesis using assms by (simp add: WeakPtr_assign_shared_def)
next
  case (Some old)
  show ?thesis
  proof (cases "strong s other")
    case None
    then show ?thesis using assms Some by (simp add: WeakPtr_assign_shared_def)
  next
    case o: (Some tmp)
    have "\<And>a. tmp = Some a \<Longrightarrow> 0 < refs (strong s) a + refs (weak s) a"
      using o by (simp add: refs_pos)
    from WeakPtr_assign_tail [where tmp = tmp, OF assms Some this] obtain s' where
      "and_then (WeakPtr_from_cb tmp s)
         (\<lambda>s1. WeakPtr_release old (s1\<lparr>weak := (weak s1)(this \<mapsto> tmp)\<rparr>)) = Inr s'"
      "consistent None None s'" by blast
    then show ?thesis
      using Some o by (simp add: WeakPtr_assign_shared_def)
  qed
qed

lemma WeakPtr_dtor_good:
  assumes "consistent None None s"
  shows "good (WeakPtr_dtor this s)"
proof (cases "weak s this")
  case None
  then show ?thesis using assms by (simp add: WeakPtr_dtor_def)
next
  case (Some cb)
  let ?s1 = "s\<lparr>weak := (weak s)(this := None)\<rparr>"
  have "consistent None cb ?s1" using assms Some by (rule inv_weak_del)
  from WeakPtr_release_inv [OF this] obtain s' where
    "WeakPtr_release cb ?s1 = Inr s'" "consistent None None s'" by blast
  then show ?thesis using Some by (simp add: WeakPtr_dtor_def)
qed

text \<open>What \<open>expired()\<close> answers in a state that satisfies the invariant.\<close>

lemma WeakPtr_expired_inv:
  assumes "consistent None None s" and "weak s w = Some cb"
  shows "WeakPtr_expired s w = Some (case cb of None \<Rightarrow> True | Some a \<Rightarrow> refs (strong s) a = 0)"
proof (cases cb)
  case None
  then show ?thesis using assms(2)
    by (simp add: WeakPtr_expired_def WeakPtr_use_count_def cb_use_count_def)
next
  case (Some a)
  with assms(2) have "0 < refs (weak s) a" by (simp add: refs_pos)
  with inv_referenced [OF assms(1), of a] obtain b where
    b: "heap s a = Some (Live b)" "unat (shared_count b) = refs (strong s) a"
    by auto
  have "shared_count b = 0 \<longleftrightarrow> refs (strong s) a = 0"
    using b(2) by (metis unat_eq_0)
  then show ?thesis using Some assms(2) b(1)
    by (simp add: WeakPtr_expired_def WeakPtr_use_count_def cb_use_count_def block_at_def)
qed

lemma WeakPtr_lock_good:
  assumes "consistent None None s"
  shows "good (WeakPtr_lock result this s)"
proof (cases "strong s result")
  case (Some c)
  then show ?thesis using assms by (simp add: WeakPtr_lock_def)
next
  case None
  show ?thesis
  proof (cases "weak s this")
    case n: None
    then show ?thesis using assms None by (simp add: WeakPtr_lock_def)
  next
    case (Some cb)
    note e = WeakPtr_expired_inv [OF assms Some]
    show ?thesis
    proof (cases "case cb of None \<Rightarrow> True | Some a \<Rightarrow> refs (strong s) a = 0")
      case True
      have "consistent None None (s\<lparr>strong := (strong s)(result \<mapsto> None)\<rparr>)"
        using assms None by (rule inv_strong_new)
      then show ?thesis using None Some e True by (simp add: WeakPtr_lock_def)
    next
      case False
      then have "\<And>a. cb = Some a \<Longrightarrow> 0 < refs (strong s) a" by auto
      from SharedPtr_from_cb_inv [OF assms this] obtain s1 where
        s1: "SharedPtr_from_cb cb s = Inr s1" "consistent cb None s1" "strong s1 = strong s"
        by blast
      have "strong s1 result = None" using s1(3) None by simp
      with s1(2) have "consistent None None (s1\<lparr>strong := (strong s1)(result \<mapsto> cb)\<rparr>)"
        by (rule inv_strong_new)
      then show ?thesis
        using None Some e False s1(1) by (simp add: WeakPtr_lock_def and_then_def)
    qed
  qed
qed

lemma exec_good:
  assumes "plain U" and "consistent None None s"
  shows "good (exec U x s)"
proof (cases x)
  case (AllocateShared p al args)
  then show ?thesis using SharedPtr_emplace_good [OF assms(2)] by (simp add: allocateShared_def)
next
  case (MakeShared p args)
  then show ?thesis using SharedPtr_emplace_good [OF assms(2)]
    by (simp add: makeShared_def allocateShared_def)
qed (simp_all add: assms SharedPtr_default_good SharedPtr_from_ptr_good SharedPtr_copy_good
      SharedPtr_move_good SharedPtr_copy_assign_good SharedPtr_move_assign_good
      SharedPtr_swap_good SharedPtr_reset_good SharedPtr_reset_ptr_good SharedPtr_dtor_good
      WeakPtr_default_good WeakPtr_copy_good WeakPtr_from_shared_good WeakPtr_move_good
      WeakPtr_copy_assign_good WeakPtr_move_assign_good WeakPtr_assign_shared_good
      WeakPtr_lock_good WeakPtr_dtor_good)

lemma run_good:
  assumes "plain U" and "consistent None None s"
  shows "good (run U xs s)"
  using assms(2)
proof (induction xs arbitrary: s)
  case Nil
  then show ?case by simp
next
  case (Cons x xs)
  from exec_good [OF assms(1) Cons.prems, of x] show ?case
  proof (cases "exec U x s")
    case (Inl e)
    with \<open>good (exec U x s)\<close> show ?thesis by (simp add: and_then_def)
  next
    case (Inr s1)
    with \<open>good (exec U x s)\<close> have "consistent None None s1" by simp
    from Cons.IH [OF this] show ?thesis using Inr by (simp add: and_then_def)
  qed
qed

lemma init_inv: "consistent None None init"
  by (simp add: consistent_def init_def refs_def events_of_def)

lemma reachable_inv:
  assumes "plain U" and "run U xs init = Inr s"
  shows "consistent None None s"
  using run_good [OF assms(1) init_inv, of xs] assms(2) by simp

lemma kept_refl: "kept h h"
  by (auto simp: kept_def)

lemma kept_trans: "kept h h' \<Longrightarrow> kept h' h'' \<Longrightarrow> kept h h''"
  unfolding kept_def by (metis (no_types, lifting))

lemma kept_fresh: "h a = None \<Longrightarrow> kept h (h(a \<mapsto> c))"
  by (auto simp: kept_def)

lemma kept_count:
  "h a = Some (Live b) \<Longrightarrow> derived b' = derived b \<Longrightarrow> kept h (h(a \<mapsto> Live b'))"
  "h a = Some (Live b) \<Longrightarrow> derived b' = derived b \<Longrightarrow> kept h (h(a \<mapsto> Freed b'))"
  by (auto simp: kept_def)

lemma SharedPtr_from_cb_kept:
  "SharedPtr_from_cb cb s = Inr s' \<Longrightarrow> kept (heap s) (heap s')"
  by (auto simp: SharedPtr_from_cb_def block_at_def set_block_def kept_refl kept_count
        split: option.splits cell.splits)

lemma WeakPtr_from_cb_kept:
  "WeakPtr_from_cb cb s = Inr s' \<Longrightarrow> kept (heap s) (heap s')"
  by (auto simp: WeakPtr_from_cb_def block_at_def set_block_def kept_refl kept_count
        split: option.splits cell.splits)

lemma deallocate_kept:
  "deallocate a s = Inr s' \<Longrightarrow> kept (heap s) (heap s')"
  by (auto simp: deallocate_def block_at_def emit_def kept_count
        split: option.splits cell.splits)

lemma WeakPtr_release_kept:
  assumes "WeakPtr_release cb s = Inr s'"
  shows "kept (heap s) (heap s')"
proof (cases cb)
  case None
  with assms show ?thesis by (simp add: WeakPtr_release_def kept_refl)
next
  case (Some a)
  with assms obtain b where b: "heap s a = Some (Live b)"
    by (auto simp: WeakPtr_release_def block_at_def split: option.splits cell.splits)
  let ?s1 = "set_block a (b\<lparr>weak_count := weak_count b - 1\<rparr>) s"
  have k1: "kept (heap s) (heap ?s1)" using b by (simp add: set_block_def kept_count)
  from assms Some b have "s' = ?s1 \<or> deallocate a ?s1 = Inr s'"
    by (auto simp: WeakPtr_release_def block_at_def Let_def split: if_splits)
  then show ?thesis using k1 deallocate_kept [of a ?s1 s'] kept_trans by blast
qed

lemma destroy_plain_heap:
  assumes "plain U" and "destroy U a s = Inr s'"
  shows "heap s' = heap s"
  using assms
  by (auto simp: destroy_def plain_def emit_def split: option.splits ControlBlock.splits)

lemma SharedPtr_release_kept:
  assumes "plain U" and "SharedPtr_release U cb s = Inr s'"
  shows "kept (heap s) (heap s')"
proof (cases cb)
  case None
  with assms show ?thesis by (simp add: SharedPtr_release_def kept_refl)
next
  case (Some a)
  with assms obtain b where b: "heap s a = Some (Live b)"
    by (auto simp: SharedPtr_release_def block_at_def split: option.splits cell.splits)
  let ?s1 = "set_block a (b\<lparr>shared_count := shared_count b - 1\<rparr>) s"
  have k1: "kept (heap s) (heap ?s1)" using b by (simp add: set_block_def kept_count)
  from assms Some b have "s' = ?s1 \<or>
      (\<exists>s2. destroy U a ?s1 = Inr s2 \<and> (s' = s2 \<or> deallocate a s2 = Inr s'))"
    by (auto simp: SharedPtr_release_def block_at_def Let_def and_then_def
          split: if_splits sum.splits option.splits cell.splits)
  then show ?thesis
  proof (elim disjE exE conjE)
    assume "s' = ?s1" then show ?thesis using k1 by simp
  next
    fix s2 assume "destroy U a ?s1 = Inr s2" "s' = s2"
    then show ?thesis using k1 destroy_plain_heap [OF assms(1), of a ?s1 s2] by simp
  next
    fix s2 assume d: "destroy U a ?s1 = Inr s2" "deallocate a s2 = Inr s'"
    from destroy_plain_heap [OF assms(1) d(1)] k1 have "kept (heap s) (heap s2)" by simp
    with deallocate_kept [OF d(2)] show ?thesis by (rule kept_trans [rotated])
  qed
qed

lemma exec_kept:
  assumes "plain U" and "consistent None None s" and "exec U x s = Inr s'"
  shows "kept (heap s) (heap s')"
proof -
  note f = inv_fresh(1) [OF assms(2)]
  note prim = SharedPtr_from_cb_kept WeakPtr_from_cb_kept WeakPtr_release_kept
    SharedPtr_release_kept [OF assms(1)]
  show ?thesis
  proof (cases x)
    case (SharedFromPtr p q d al)
    with assms(3) f show ?thesis
      by (auto simp: SharedPtr_from_ptr_def allocate_def set_block_def Let_def kept_fresh
           split: option.splits)
  next
    case (AllocateShared p al args)
    with assms(3) f show ?thesis
      by (auto simp: allocateShared_def SharedPtr_emplace_def allocate_def set_block_def Let_def kept_fresh
           split: option.splits)
  next
    case (MakeShared p args)
    with assms(3) f show ?thesis
      by (auto simp: makeShared_def allocateShared_def SharedPtr_emplace_def allocate_def set_block_def Let_def kept_fresh
           split: option.splits)
  next
    case (SharedResetPtr p q)
    with assms(3) obtain old where
      r: "SharedPtr_release U old
            ((set_block (next_addr s) \<lparr>shared_count = 1, weak_count = 0,
               derived = ControlBlockWithoutMakeShared q (default_deleter U) (default_allocator U)\<rparr>
               (snd (allocate s)))\<lparr>strong := (strong s)(p \<mapsto> Some (next_addr s))\<rparr>) = Inr s'"
      by (auto simp: SharedPtr_reset_ptr_def allocate_def set_block_def Let_def split: option.splits)
    from prim(4) [OF r] f show ?thesis
      by (auto simp: allocate_def set_block_def intro: kept_trans [OF kept_fresh])
  next
    case (SharedCopy p q)
    with assms(3) show ?thesis
      by (auto simp: SharedPtr_copy_def and_then_def split: option.splits sum.splits dest!: prim)
  next
    case (SharedCopyAssign p q)
    with assms(3) show ?thesis
      by (auto simp: SharedPtr_copy_assign_def and_then_def split: option.splits sum.splits
            dest!: prim intro: kept_trans)
  next
    case (SharedMoveAssign p q)
    with assms(3) show ?thesis
      by (auto simp: SharedPtr_move_assign_def Let_def split: option.splits dest!: prim)
  next
    case (SharedReset p)
    with assms(3) show ?thesis
      by (auto simp: SharedPtr_reset_def split: option.splits dest!: prim)
  next
    case (SharedDtor p)
    with assms(3) show ?thesis
      by (auto simp: SharedPtr_dtor_def split: option.splits dest!: prim)
  next
    case (WeakCopy p q)
    with assms(3) show ?thesis
      by (auto simp: WeakPtr_copy_def and_then_def split: option.splits sum.splits dest!: prim)
  next
    case (WeakFromShared p q)
    with assms(3) show ?thesis
      by (auto simp: WeakPtr_from_shared_def and_then_def split: option.splits sum.splits dest!: prim)
  next
    case (WeakCopyAssign p q)
    with assms(3) show ?thesis
      by (auto simp: WeakPtr_copy_assign_def and_then_def split: option.splits sum.splits
            dest!: prim intro: kept_trans)
  next
    case (WeakMoveAssign p q)
    with assms(3) show ?thesis
      by (auto simp: WeakPtr_move_assign_def and_then_def split: option.splits sum.splits
            dest!: prim intro: kept_trans)
  next
    case (WeakAssignShared p q)
    with assms(3) show ?thesis
      by (auto simp: WeakPtr_assign_shared_def and_then_def split: option.splits sum.splits
            dest!: prim intro: kept_trans)
  next
    case (WeakLock p q)
    with assms(3) show ?thesis
      by (auto simp: WeakPtr_lock_def and_then_def kept_refl split: option.splits sum.splits bool.splits
            dest!: prim)
  next
    case (WeakDtor p)
    with assms(3) show ?thesis
      by (auto simp: WeakPtr_dtor_def split: option.splits dest!: prim)
  qed (use assms(3) in \<open>auto simp: SharedPtr_default_def SharedPtr_move_def SharedPtr_swap_def
         WeakPtr_default_def WeakPtr_move_def kept_refl split: option.splits\<close>)
qed

lemma run_kept:
  assumes "plain U"
  shows "consistent None None s \<Longrightarrow> run U xs s = Inr s' \<Longrightarrow>
         kept (heap s) (heap s') \<and> consistent None None s'"
proof (induction xs arbitrary: s)
  case Nil
  then show ?case by (simp add: kept_refl)
next
  case (Cons x xs)
  from Cons.prems(2) obtain s1 where s1: "exec U x s = Inr s1" "run U xs s1 = Inr s'"
    by (auto simp: and_then_def split: sum.splits)
  from exec_good [OF assms Cons.prems(1), of x] s1(1) have i1: "consistent None None s1" by simp
  from exec_kept [OF assms Cons.prems(1) s1(1)] Cons.IH [OF i1 s1(2)]
  show ?case by (blast intro: kept_trans)
qed

lemma refs_none: "\<forall>q. m q \<noteq> Some (Some a) \<Longrightarrow> refs m a = 0"
proof -
  assume "\<forall>q. m q \<noteq> Some (Some a)"
  then have "{q. m q = Some (Some a)} = {}" by blast
  then show ?thesis unfolding refs_def by (simp only: card.empty)
qed

section \<open>Construction\<close>

lemmas op_defs = SharedPtr_default_def SharedPtr_from_ptr_def allocateShared_def makeShared_def
  SharedPtr_emplace_def SharedPtr_copy_def SharedPtr_move_def SharedPtr_copy_assign_def
  SharedPtr_move_assign_def SharedPtr_swap_def SharedPtr_reset_def SharedPtr_reset_ptr_def
  SharedPtr_dtor_def WeakPtr_default_def WeakPtr_copy_def WeakPtr_from_shared_def WeakPtr_move_def
  WeakPtr_copy_assign_def WeakPtr_move_assign_def WeakPtr_assign_shared_def WeakPtr_lock_def
  WeakPtr_dtor_def SharedPtr_from_cb_def SharedPtr_release_def WeakPtr_from_cb_def
  WeakPtr_release_def destroy_def deallocate_def allocate_def set_block_def emit_def block_at_def
  and_then_def init_def WeakPtr_expired_def WeakPtr_use_count_def cb_use_count_def
  SharedPtr_use_count_def SharedPtr_get_def cb_get_def deref_def

lemmas obs_defs = after_def fault_of_def recorded_allocator_def example_user_def

lemma plain_example_user: "plain example_user"
  by (simp add: plain_def example_user_def)

lemma demo_run: "run example_user demo init = Inr (after (run example_user demo init))"
  by (simp add: demo_def obs_defs op_defs)

text \<open>
  C3 as stated fails: where the constructor of the managed object throws, \<open>allocateShared\<close>
  fails with the exception, and in the state it leaves behind the cell it allocated is still
  allocated (raw memory), no \<open>deallocate\<close> has been called and no pointer refers to the
  cell. The block memory is not released before the failure propagates.
\<close>

theorem allocateShared_throw_keeps_allocation:
  "fault_of (allocateShared example_user 0 0 0 init) = Some ConstructorThrew \<and>
   heap (after (allocateShared example_user 0 0 0 init)) 0 = Some Raw \<and>
   log (after (allocateShared example_user 0 0 0 init)) = [] \<and>
   strong (after (allocateShared example_user 0 0 0 init)) 0 = None"
  by (simp add: obs_defs op_defs)

text \<open>
  C3, amended: \<open>allocateShared\<close> (and \<open>makeShared\<close>, which calls it) allocates the block
  memory and then constructs in place. When the constructor of the managed object throws,
  the failure propagates, no pointer and no control block come to exist, no count and no
  call of \<open>destroy\<close> or \<open>deallocate\<close> happens, and the memory just allocated stays
  allocated. When the constructor returns, a valid Strong Pointer is returned: it references
  the new block, which holds the constructed object and the given allocator, with
  \<open>shared_count = 1\<close> and \<open>weak_count = 0\<close>.
\<close>

theorem allocateShared_outcomes:
  assumes "strong s this = None"
  shows "(construct_T U args = None \<longrightarrow>
            allocateShared U this alloc args s =
              Inl (ConstructorThrew, s\<lparr>heap := (heap s)(next_addr s \<mapsto> Raw), next_addr := Suc (next_addr s)\<rparr>)) \<and>
         (\<forall>v. construct_T U args = Some v \<longrightarrow>
            (\<exists>s'. allocateShared U this alloc args s = Inr s' \<and>
                  strong s' this = Some (Some (next_addr s)) \<and>
                  block_at s' (next_addr s) = Some \<lparr>shared_count = 1, weak_count = 0,
                     derived = ControlBlockWithMakeShared v alloc\<rparr>))"
  using assms
  by (simp add: allocateShared_def SharedPtr_emplace_def allocate_def set_block_def block_at_def)

theorem allocateShared_outcomes_witness:
  "allocateShared example_user 0 3 0 (init :: (nat, nat, nat) state) =
     Inl (ConstructorThrew, init\<lparr>heap := (heap init)(0 \<mapsto> Raw), next_addr := 1\<rparr>) \<and>
   (\<exists>s'. allocateShared example_user 0 3 42 (init :: (nat, nat, nat) state) = Inr s' \<and>
         strong s' 0 = Some (Some 0) \<and>
         block_at s' 0 = Some \<lparr>shared_count = 1, weak_count = 0,
            derived = ControlBlockWithMakeShared 42 3\<rparr>)"
proof -
  have f: "strong (init :: (nat, nat, nat) state) 0 = None" by (simp add: init_def)
  have "construct_T example_user 0 = None" "construct_T example_user 42 = Some 42"
    by (simp_all add: example_user_def)
  with allocateShared_outcomes [OF f, of example_user 0 3]
       allocateShared_outcomes [OF f, of example_user 42 3]
  show ?thesis by (simp add: init_def)
qed

text \<open>
  C4 as stated fails: constructed with the allocator number 1, the block records the
  default-constructed allocator, number 0.
\<close>

theorem from_ptr_ignores_allocator:
  "recorded_allocator (SharedPtr_from_ptr example_user 0 (Some (External 5)) 7 1 init) 0 = Some 0 \<and>
   recorded_allocator (SharedPtr_from_ptr example_user 0 (Some (External 5)) 7 1 init) 0 \<noteq> Some 1"
  by (simp add: obs_defs op_defs)

text \<open>
  C4, amended: constructing a Strong Pointer from a raw pointer with a disposer and an
  allocator allocates an external-pointer control block that records the given disposer
  and a default-constructed allocator (the given allocator is not used), and sets
  \<open>shared_count = 1\<close> and \<open>weak_count = 0\<close>. The block also records the raw pointer, and
  the new pointer references the block.
\<close>

theorem from_ptr_block:
  assumes "strong s this = None"
  shows "\<exists>s'. SharedPtr_from_ptr U this p d alloc s = Inr s' \<and>
              strong s' this = Some (Some (next_addr s)) \<and>
              next_addr s' = Suc (next_addr s) \<and>
              block_at s' (next_addr s) = Some \<lparr>shared_count = 1, weak_count = 0,
                derived = ControlBlockWithoutMakeShared p d (default_allocator U)\<rparr>"
  using assms by (simp add: SharedPtr_from_ptr_def allocate_def set_block_def block_at_def)

theorem from_ptr_block_witness:
  "\<exists>s'. SharedPtr_from_ptr example_user 0 (Some (External 5)) 7 1 (init :: (nat, nat, nat) state) = Inr s' \<and>
        strong s' 0 = Some (Some 0) \<and> next_addr s' = 1 \<and>
        block_at s' 0 = Some \<lparr>shared_count = 1, weak_count = 0,
          derived = ControlBlockWithoutMakeShared (Some (External 5)) 7 0\<rparr>"
proof -
  have "strong (init :: (nat, nat, nat) state) 0 = None" by (simp add: init_def)
  from from_ptr_block [OF this, of example_user "Some (External 5)" 7 1]
  show ?thesis by (simp add: init_def example_user_def)
qed

text \<open>
  C8: when the constructor of \<open>T\<close> returns the value \<open>v\<close> for the arguments, \<open>makeShared\<close>
  returns a pointer whose \<open>get()\<close> is a non-null address, the address of the object embedded
  in the new block, and the value read through that address is \<open>v\<close>.
\<close>

theorem makeShared_get:
  assumes "strong s this = None" and "construct_T U args = Some v"
  shows "\<exists>s'. makeShared U this args s = Inr s' \<and>
              SharedPtr_get s' this = Some (Some (ObjectIn (next_addr s))) \<and>
              deref s' (ObjectIn (next_addr s)) = Some v"
  using assms
  by (simp add: makeShared_def allocateShared_def SharedPtr_emplace_def allocate_def
        set_block_def block_at_def SharedPtr_get_def deref_def cb_get_def)

theorem makeShared_get_witness:
  "\<exists>s'. makeShared example_user 0 42 (init :: (nat, nat, nat) state) = Inr s' \<and>
        SharedPtr_get s' 0 = Some (Some (ObjectIn 0)) \<and> deref s' (ObjectIn 0) = Some 42"
proof -
  have "strong (init :: (nat, nat, nat) state) 0 = None" by (simp add: init_def)
  moreover have "construct_T example_user 42 = Some 42" by (simp add: example_user_def)
  ultimately show ?thesis
    using makeShared_get [of "init :: (nat, nat, nat) state" 0 example_user 42 42]
    by (simp add: init_def)
qed

section \<open>Counting\<close>



text \<open>
  C10: in every reachable state, for every live Strong Pointer \<open>p\<close>, empty or not, the
  self-assignment \<open>p = p\<close> returns and leaves the whole state as it was: \<open>p\<close> references the
  same block, every count is unchanged, and the log of calls is unchanged, so neither
  \<open>destroy()\<close> nor \<open>deallocate()\<close> has been called.
\<close>

theorem self_copy_assign:
  assumes "plain U" and "run U xs init = Inr s" and "strong s p = Some cb"
  shows "SharedPtr_copy_assign U p p s = Inr s"
proof (cases cb)
  case None
  with assms(3) have "s\<lparr>strong := (strong s)(p \<mapsto> None)\<rparr> = s" by (simp add: fun_upd_idem)
  then show ?thesis using assms(3) None
    by (simp add: SharedPtr_copy_assign_def SharedPtr_from_cb_def SharedPtr_release_def and_then_def)
next
  case (Some a)
  have i: "consistent None None s" by (rule reachable_inv [OF assms(1,2)])
  from assms(3) Some have "0 < refs (strong s) a" by (simp add: refs_pos)
  with inv_referenced [OF i, of a] obtain b where
    b: "heap s a = Some (Live b)" "unat (shared_count b) = refs (strong s) a" by auto
  with \<open>0 < refs (strong s) a\<close> have nz: "shared_count b \<noteq> 0" by auto
  have "(heap s)(a \<mapsto> Live b) = heap s" "(strong s)(p \<mapsto> Some a) = strong s"
    using assms(3) Some b(1) by (simp_all add: fun_upd_idem)
  then show ?thesis using assms(3) Some b(1) nz
    by (simp add: SharedPtr_copy_assign_def SharedPtr_from_cb_def SharedPtr_release_def
          and_then_def block_at_def set_block_def)
qed

theorem self_copy_assign_witness:
  "SharedPtr_copy_assign example_user 0 0 (after (run example_user demo init)) =
     Inr (after (run example_user demo init))"
proof -
  have "strong (after (run example_user demo init)) 0 = Some (Some 0)"
    by (simp add: demo_def obs_defs op_defs)
  from self_copy_assign [OF plain_example_user demo_run this]
  show ?thesis .
qed

section \<open>Weak pointers\<close>


lemma demo_lock_run: "run example_user demo_lock init = Inr (after (run example_user demo_lock init))"
  by (simp add: demo_lock_def obs_defs op_defs)

lemma demo_move_run: "run example_user demo_move init = Inr (after (run example_user demo_move init))"
  by (simp add: demo_move_def obs_defs op_defs)



text \<open>
  C5: in every reachable state, for a live WeakPtr \<open>w\<close> and a free slot \<open>r\<close> for the
  result, \<open>lock()\<close> returns. When \<open>use_count()\<close> is 0 the result is an empty Strong
  Pointer and nothing else changes (every count and the log stay as they were). When
  \<open>use_count()\<close> is \<open>n > 0\<close> the result references the block of \<open>w\<close>, the only change
  to the memory is that this block's \<open>shared_count\<close> becomes \<open>n + 1\<close> (without
  wrap-around), and \<open>get()\<close> of the result is the managed address of the block, the one
  every Strong Pointer to the block had before.
\<close>

theorem WeakPtr_lock_shares:
  assumes "plain U" and "run U xs init = Inr s"
      and "weak s w = Some cb" and "strong s r = None"
  shows "\<exists>n s'. WeakPtr_use_count s w = Some n \<and> WeakPtr_lock r w s = Inr s' \<and>
           weak s' = weak s \<and> log s' = log s \<and>
           (n = 0 \<longrightarrow> s' = s\<lparr>strong := (strong s)(r \<mapsto> None)\<rparr>) \<and>
           (n \<noteq> 0 \<longrightarrow> (\<exists>a b. cb = Some a \<and> block_at s a = Some b \<and> shared_count b = n \<and>
               s' = s\<lparr>heap := (heap s)(a \<mapsto> Live (b\<lparr>shared_count := n + 1\<rparr>)),
                      strong := (strong s)(r \<mapsto> Some a)\<rparr> \<and>
               unat (n + 1) = unat n + 1 \<and>
               SharedPtr_use_count s' r = Some (n + 1) \<and>
               SharedPtr_get s' r = Some (cb_get a b) \<and>
               (\<forall>q. strong s q = Some (Some a) \<longrightarrow> SharedPtr_get s q = Some (cb_get a b))))"
proof (cases cb)
  case None
  then show ?thesis using assms(3,4)
    by (simp add: WeakPtr_lock_def WeakPtr_expired_def WeakPtr_use_count_def cb_use_count_def)
next
  case (Some a)
  have i: "consistent None None s" by (rule reachable_inv [OF assms(1,2)])
  from assms(3) Some have "0 < refs (weak s) a" by (simp add: refs_pos)
  with inv_referenced [OF i, of a] obtain b where
    b: "heap s a = Some (Live b)" "unat (shared_count b) = refs (strong s) a" by auto
  have u: "unat (shared_count b + 1) = unat (shared_count b) + 1"
    using unat_incr [of "shared_count b"] refs_le [of "strong s" a] b(2) by simp
  have uc: "WeakPtr_use_count s w = Some (shared_count b)"
    using assms(3) Some b(1) by (simp add: WeakPtr_use_count_def cb_use_count_def block_at_def)
  show ?thesis
  proof (cases "shared_count b = 0")
    case True
    then show ?thesis using assms(3,4) Some b(1) uc
      by (simp add: WeakPtr_lock_def WeakPtr_expired_def)
  next
    case False
    have "WeakPtr_lock r w s = Inr (s\<lparr>heap := (heap s)(a \<mapsto> Live (b\<lparr>shared_count := shared_count b + 1\<rparr>)),
                      strong := (strong s)(r \<mapsto> Some a)\<rparr>)"
      using assms(3,4) Some b(1) uc False
      by (simp add: WeakPtr_lock_def WeakPtr_expired_def SharedPtr_from_cb_def and_then_def
            block_at_def set_block_def)
    then show ?thesis using Some b(1) uc False u
      by (simp add: block_at_def SharedPtr_use_count_def cb_use_count_def SharedPtr_get_def cb_get_def)
  qed
qed

theorem WeakPtr_lock_shares_witness:
  "WeakPtr_use_count (after (run example_user demo_lock init)) 1 = Some 2 \<and>
   SharedPtr_use_count (after (WeakPtr_lock 3 1 (after (run example_user demo_lock init)))) 3 = Some 3 \<and>
   SharedPtr_get (after (WeakPtr_lock 3 1 (after (run example_user demo_lock init)))) 3 = Some (Some (ObjectIn 0))"
proof -
  have "weak (after (run example_user demo_lock init)) 1 = Some (Some 0)"
       "strong (after (run example_user demo_lock init)) 3 = None"
    by (simp_all add: demo_lock_def obs_defs op_defs)
  from WeakPtr_lock_shares [OF plain_example_user demo_lock_run this]
  show ?thesis by (simp add: demo_lock_def obs_defs op_defs)
qed

section \<open>Moving\<close>

text \<open>
  C6 as stated fails, in three ways. After the self-move-assignment \<open>p = std::move(p)\<close> the
  source still references its block (\<open>use_count()\<close> is 1, not 0). When the destination
  already references the block of the source, the move-assignment changes \<open>shared_count\<close>
  from 2 to 1. And when the destination references another block whose managed object holds
  a Strong Pointer to the block of the source (\<open>head = std::move(n)\<close> after
  \<open>head->next = n\<close>), releasing the destination's previous reference destroys that object
  and its member, and \<open>shared_count\<close> of the moved block again goes from 2 to 1.
\<close>

theorem move_assign_counterexample:
  "SharedPtr_use_count (after (run example_user [MakeShared 0 42, SharedMoveAssign 0 0] init)) 0 = Some 1 \<and>
   SharedPtr_use_count (after (run example_user [MakeShared 0 42, SharedCopy 1 0] init)) 0 = Some 2 \<and>
   SharedPtr_use_count (after (run example_user [MakeShared 0 42, SharedCopy 1 0, SharedMoveAssign 1 0] init)) 1 = Some 1 \<and>
   strong (after (run (list_user (Suc (Suc 0))) list_program init)) 0 = Some (Some 0) \<and>
   SharedPtr_use_count (after (run (list_user (Suc (Suc 0))) list_program init)) 1 = Some 2 \<and>
   fault_of (run (list_user (Suc (Suc 0))) (list_program @ [SharedMoveAssign 0 1]) init) = None \<and>
   strong (after (run (list_user (Suc (Suc 0))) (list_program @ [SharedMoveAssign 0 1]) init)) 0 = Some (Some 1) \<and>
   SharedPtr_use_count (after (run (list_user (Suc (Suc 0))) (list_program @ [SharedMoveAssign 0 1]) init)) 0 = Some 1"
  by (simp add: list_program_def obs_defs op_defs)

text \<open>
  C6, amended. For a Strong Pointer \<open>src\<close> that references a block \<open>a\<close>, in any state:
  move-construction from it returns, changes no block (no \<open>shared_count\<close>, no
  \<open>weak_count\<close>), makes the destination reference \<open>a\<close> and leaves the source referencing
  nothing (\<open>use_count()\<close> is 0, \<open>get()\<close> is null); self-move-assignment returns the state
  as it was; and move-assignment to another Strong Pointer is this transfer of the reference
  followed by the release of the destination's previous reference, as by the destructor.
  In every reachable state of a program whose managed objects' destructors and deleters
  touch no pointer object, move-assignment to another Strong Pointer returns, the
  destination references \<open>a\<close>, the source references nothing (\<open>use_count()\<close> is 0,
  \<open>get()\<close> is null), and block \<open>a\<close> is as it was when the destination did not already
  reference it, while its \<open>shared_count\<close> is one less (and nothing else of it changes) when
  the destination did.
\<close>

theorem SharedPtr_move_transfers:
  assumes "strong s src = Some (Some a)"
  shows "(strong s dst = None \<longrightarrow>
            (\<exists>s'. SharedPtr_move dst src s = Inr s' \<and> heap s' = heap s \<and>
                  strong s' dst = Some (Some a) \<and> strong s' src = Some None \<and>
                  SharedPtr_use_count s' src = Some 0 \<and> SharedPtr_get s' src = Some None)) \<and>
         SharedPtr_move_assign U src src s = Inr s \<and>
         (strong s dst = Some old \<and> dst \<noteq> src \<longrightarrow>
            SharedPtr_move_assign U dst src s =
              SharedPtr_release U old (s\<lparr>strong := (strong s)(src \<mapsto> None, dst \<mapsto> Some a)\<rparr>)) \<and>
         (plain U \<and> run U xs init = Inr s \<and> strong s dst = Some old \<and> dst \<noteq> src \<longrightarrow>
            (\<exists>s'. SharedPtr_move_assign U dst src s = Inr s' \<and>
                  strong s' dst = Some (Some a) \<and> strong s' src = Some None \<and>
                  SharedPtr_use_count s' src = Some 0 \<and> SharedPtr_get s' src = Some None \<and>
                  (old \<noteq> Some a \<longrightarrow> heap s' a = heap s a) \<and>
                  (old = Some a \<longrightarrow>
                     (\<exists>b. block_at s a = Some b \<and>
                          block_at s' a = Some (b\<lparr>shared_count := shared_count b - 1\<rparr>) \<and>
                          unat (shared_count b - 1) + 1 = unat (shared_count b)))))"
proof (intro conjI impI)
  assume "strong s dst = None"
  with assms have "dst \<noteq> src" by auto
  with \<open>strong s dst = None\<close> assms
  show "\<exists>s'. SharedPtr_move dst src s = Inr s' \<and> heap s' = heap s \<and>
                  strong s' dst = Some (Some a) \<and> strong s' src = Some None \<and>
                  SharedPtr_use_count s' src = Some 0 \<and> SharedPtr_get s' src = Some None"
    by (simp add: SharedPtr_move_def SharedPtr_use_count_def cb_use_count_def SharedPtr_get_def)
next
  have "(strong s)(src \<mapsto> Some a) = strong s" using assms by (simp add: fun_upd_idem)
  then show "SharedPtr_move_assign U src src s = Inr s"
    using assms by (simp add: SharedPtr_move_assign_def SharedPtr_release_def Let_def)
next
  assume "strong s dst = Some old \<and> dst \<noteq> src"
  then show "SharedPtr_move_assign U dst src s =
      SharedPtr_release U old (s\<lparr>strong := (strong s)(src \<mapsto> None, dst \<mapsto> Some a)\<rparr>)"
    using assms by (simp add: SharedPtr_move_assign_def Let_def)
next
  assume h: "plain U \<and> run U xs init = Inr s \<and> strong s dst = Some old \<and> dst \<noteq> src"
  then have p: "plain U" and r: "run U xs init = Inr s" and d: "strong s dst = Some old"
    and ne: "dst \<noteq> src" "src \<noteq> dst" by auto
  have i: "consistent None None s" by (rule reachable_inv [OF p r])
  let ?s1 = "s\<lparr>strong := (strong s)(src \<mapsto> None)\<rparr>"
  have i1: "consistent (Some a) None ?s1" using i assms by (rule inv_strong_put)
  have o1: "strong ?s1 dst = Some old" using d ne by simp
  let ?s2 = "?s1\<lparr>strong := (strong ?s1)(dst \<mapsto> Some a)\<rparr>"
  have i2: "consistent old None ?s2" using i1 o1 by (rule inv_strong_put)
  have m: "SharedPtr_move_assign U dst src s = SharedPtr_release U old ?s2"
    using assms d ne by (simp add: SharedPtr_move_assign_def Let_def)
  from SharedPtr_release_inv [OF p i2] obtain s' where
    s': "SharedPtr_release U old ?s2 = Inr s'" "strong s' = strong ?s2"
        "\<forall>a'. old \<noteq> Some a' \<longrightarrow> heap s' a' = heap ?s2 a'"
    by blast
  have st: "strong s' dst = Some (Some a)" "strong s' src = Some None"
    using s'(2) ne by auto
  have same: "old \<noteq> Some a \<longrightarrow> heap s' a = heap s a" using s'(3) by simp
  have less: "old = Some a \<longrightarrow>
       (\<exists>b. block_at s a = Some b \<and>
            block_at s' a = Some (b\<lparr>shared_count := shared_count b - 1\<rparr>) \<and>
            unat (shared_count b - 1) + 1 = unat (shared_count b))"
  proof
    assume o: "old = Some a"
    have "strong ?s2 dst = Some (Some a)" by simp
    then have pos: "0 < refs (strong ?s2) a" by (rule refs_pos)
    from inv_referenced [OF i2, of a] o obtain b where
      b: "heap ?s2 a = Some (Live b)" "unat (shared_count b) = refs (strong ?s2) a + 1"
      by auto
    have nz: "shared_count b - 1 \<noteq> 0"
      using decr_zero [of "shared_count b"] b(2) pos by simp
    have u: "unat (shared_count b - 1) + 1 = unat (shared_count b)"
      using unat_decr [of "shared_count b"] b(2) by simp
    have "SharedPtr_release U old ?s2 =
        Inr (set_block a (b\<lparr>shared_count := shared_count b - 1\<rparr>) ?s2)"
      using o b(1) nz by (simp add: SharedPtr_release_def block_at_def Let_def)
    with s'(1) have "s' = set_block a (b\<lparr>shared_count := shared_count b - 1\<rparr>) ?s2" by simp
    then have "block_at s' a = Some (b\<lparr>shared_count := shared_count b - 1\<rparr>)"
      by (simp add: block_at_def set_block_def)
    moreover have "block_at s a = Some b" using b(1) by (simp add: block_at_def)
    ultimately show "\<exists>b. block_at s a = Some b \<and>
            block_at s' a = Some (b\<lparr>shared_count := shared_count b - 1\<rparr>) \<and>
            unat (shared_count b - 1) + 1 = unat (shared_count b)"
      using u by blast
  qed
  show "\<exists>s'. SharedPtr_move_assign U dst src s = Inr s' \<and>
                  strong s' dst = Some (Some a) \<and> strong s' src = Some None \<and>
                  SharedPtr_use_count s' src = Some 0 \<and> SharedPtr_get s' src = Some None \<and>
                  (old \<noteq> Some a \<longrightarrow> heap s' a = heap s a) \<and>
                  (old = Some a \<longrightarrow>
                     (\<exists>b. block_at s a = Some b \<and>
                          block_at s' a = Some (b\<lparr>shared_count := shared_count b - 1\<rparr>) \<and>
                          unat (shared_count b - 1) + 1 = unat (shared_count b)))"
    using m s'(1) st same less
    by (simp add: SharedPtr_use_count_def cb_use_count_def SharedPtr_get_def)
qed

theorem SharedPtr_move_transfers_witness:
  "(\<exists>s'. SharedPtr_move 3 0 (after (run example_user demo_move init)) = Inr s' \<and>
         heap s' = heap (after (run example_user demo_move init)) \<and>
         strong s' 3 = Some (Some 0) \<and> strong s' 0 = Some None \<and>
         SharedPtr_use_count s' 0 = Some 0 \<and> SharedPtr_get s' 0 = Some None) \<and>
   SharedPtr_move_assign example_user 0 0 (after (run example_user demo_move init)) =
     Inr (after (run example_user demo_move init)) \<and>
   SharedPtr_move_assign example_user 1 0 (after (run example_user demo_move init)) =
     SharedPtr_release example_user (Some 1)
       ((after (run example_user demo_move init))
          \<lparr>strong := (strong (after (run example_user demo_move init)))(0 \<mapsto> None, 1 \<mapsto> Some 0)\<rparr>) \<and>
   (\<exists>s'. SharedPtr_move_assign example_user 1 0 (after (run example_user demo_move init)) = Inr s' \<and>
         strong s' 1 = Some (Some 0) \<and> strong s' 0 = Some None \<and>
         SharedPtr_use_count s' 0 = Some 0 \<and> SharedPtr_get s' 0 = Some None \<and>
         heap s' 0 = heap (after (run example_user demo_move init)) 0) \<and>
   (\<exists>s' b. SharedPtr_move_assign example_user 2 0 (after (run example_user demo_move init)) = Inr s' \<and>
         strong s' 2 = Some (Some 0) \<and> strong s' 0 = Some None \<and>
         SharedPtr_use_count s' 0 = Some 0 \<and> SharedPtr_get s' 0 = Some None \<and>
         block_at (after (run example_user demo_move init)) 0 = Some b \<and>
         block_at s' 0 = Some (b\<lparr>shared_count := shared_count b - 1\<rparr>) \<and>
         unat (shared_count b - 1) + 1 = unat (shared_count b))"
proof -
  let ?S = "after (run example_user demo_move init)"
  have s: "strong ?S 0 = Some (Some 0)"
    by (simp add: demo_move_def obs_defs op_defs)
  have d: "strong ?S 3 = None" "strong ?S 1 = Some (Some 1)" "strong ?S 2 = Some (Some 0)"
    by (simp_all add: demo_move_def obs_defs op_defs)
  note p = plain_example_user and r = demo_move_run
  from SharedPtr_move_transfers [OF s, of 3] d(1)
  have 1: "\<exists>s'. SharedPtr_move 3 0 ?S = Inr s' \<and> heap s' = heap ?S \<and>
         strong s' 3 = Some (Some 0) \<and> strong s' 0 = Some None \<and>
         SharedPtr_use_count s' 0 = Some 0 \<and> SharedPtr_get s' 0 = Some None"
    by blast
  from SharedPtr_move_transfers [OF s, of 0 example_user]
  have 2: "SharedPtr_move_assign example_user 0 0 ?S = Inr ?S"
    by blast
  have ne: "(1::slot) \<noteq> 0" "(2::slot) \<noteq> 0" "Some (1::addr) \<noteq> Some 0" by simp_all
  note t = SharedPtr_move_transfers [OF s, of 1 example_user "Some 1" demo_move]
  from t d(2) ne
  have 3: "SharedPtr_move_assign example_user 1 0 ?S =
       SharedPtr_release example_user (Some 1) (?S\<lparr>strong := (strong ?S)(0 \<mapsto> None, 1 \<mapsto> Some 0)\<rparr>)"
    by blast
  from t d(2) p r ne
  have 4: "\<exists>s'. SharedPtr_move_assign example_user 1 0 ?S = Inr s' \<and>
         strong s' 1 = Some (Some 0) \<and> strong s' 0 = Some None \<and>
         SharedPtr_use_count s' 0 = Some 0 \<and> SharedPtr_get s' 0 = Some None \<and>
         heap s' 0 = heap ?S 0"
    by blast
  from SharedPtr_move_transfers [OF s, of 2 example_user "Some 0" demo_move] d(3) p r ne
  have 5: "\<exists>s' b. SharedPtr_move_assign example_user 2 0 ?S = Inr s' \<and>
         strong s' 2 = Some (Some 0) \<and> strong s' 0 = Some None \<and>
         SharedPtr_use_count s' 0 = Some 0 \<and> SharedPtr_get s' 0 = Some None \<and>
         block_at ?S 0 = Some b \<and>
         block_at s' 0 = Some (b\<lparr>shared_count := shared_count b - 1\<rparr>) \<and>
         unat (shared_count b - 1) + 1 = unat (shared_count b)"
    by blast
  from 1 2 3 4 5 show ?thesis by blast
qed

section \<open>Teardown\<close>

text \<open>
  For a managed type whose destructor, and deleters whose calls, touch no pointer object:
  take any reachable state, construct a Strong Pointer from a raw pointer \<open>p\<close> with a
  disposer \<open>d\<close>, and run any program from there. Once no Strong and no Weak Pointer
  references the block of that construction, the log holds for this block exactly one
  disposer call \<open>d(p)\<close>, or none at all when \<open>p\<close> is null.
\<close>

lemma deleter_called_once:
  assumes "plain U" and "run U xs init = Inr s1"
      and "SharedPtr_from_ptr U r p d al s1 = Inr s2"
      and "run U ys s2 = Inr s3"
      and "\<forall>q. strong s3 q \<noteq> Some (Some (next_addr s1))"
      and "\<forall>q. weak s3 q \<noteq> Some (Some (next_addr s1))"
  shows "deleter_calls (next_addr s1) s3 = (case p of None \<Rightarrow> [] | Some x \<Rightarrow> [InvokeDeleter d x])"
proof -
  let ?a = "next_addr s1"
  let ?D = "ControlBlockWithoutMakeShared p d (default_allocator U)"
  have i1: "consistent None None s1" by (rule reachable_inv [OF assms(1,2)])
  from SharedPtr_from_ptr_good [OF i1, of U r p d al] assms(3)
  have i2: "consistent None None s2" by simp
  from assms(3) have h2: "heap s2 ?a = Some (Live \<lparr>shared_count = 1, weak_count = 0, derived = ?D\<rparr>)"
    by (auto simp: SharedPtr_from_ptr_def allocate_def set_block_def Let_def split: option.splits)
  from run_kept [OF assms(1) i2 assms(4)] have k: "kept (heap s2) (heap s3)"
    and i3: "consistent None None s3" by simp_all
  from k h2 obtain b where b: "heap s3 ?a = Some (Live b) \<or> heap s3 ?a = Some (Freed b)" "derived b = ?D"
    unfolding kept_def by fastforce
  from i3 have "cell_ok (refs (strong s3) ?a + held None ?a) (refs (weak s3) ?a + held None ?a)
      (events_of ?a (log s3)) (heap s3 ?a)"
    unfolding consistent_def by blast
  then have c: "cell_ok 0 0 (events_of ?a (log s3)) (heap s3 ?a)"
    using refs_none [OF assms(5)] refs_none [OF assms(6)] by simp
  from b(1) c have "events_of ?a (log s3) = destroy_events b @ [Deallocate]"
    by auto
  then show ?thesis using b(2)
    by (simp add: deleter_calls_def destroy_events_def split: option.splits)
qed

lemma deleter_called_once_example:
  "deleter_calls 1 deleter_s3 = [InvokeDeleter 7 (External 5)]"
proof -
  have 1: "run example_user [MakeShared 9 42] init = Inr deleter_s1"
    by (simp add: deleter_s1_def obs_defs op_defs)
  have 2: "SharedPtr_from_ptr example_user 0 (Some (External 5)) 7 0 deleter_s1 = Inr deleter_s2"
    by (simp add: deleter_s2_def deleter_s1_def obs_defs op_defs)
  have 3: "run example_user demo_deleter deleter_s2 = Inr deleter_s3"
    by (simp add: deleter_s3_def deleter_s2_def deleter_s1_def demo_deleter_def obs_defs op_defs)
  have n: "next_addr deleter_s1 = 1"
    by (simp add: deleter_s1_def obs_defs op_defs)
  have 4: "\<forall>q. strong deleter_s3 q \<noteq> Some (Some (next_addr deleter_s1))"
    unfolding n by (simp add: deleter_s3_def deleter_s2_def deleter_s1_def demo_deleter_def obs_defs op_defs)
  have 5: "\<forall>q. weak deleter_s3 q \<noteq> Some (Some (next_addr deleter_s1))"
    unfolding n by (simp add: deleter_s3_def deleter_s2_def deleter_s1_def demo_deleter_def obs_defs op_defs)
  from deleter_called_once [OF plain_example_user 1 2 3 4 5]
  show ?thesis by (simp add: n)
qed


text \<open>
  For a managed type whose destructor, and a deleter whose call, touch no pointer object:
  in every reachable state \<open>destroy()\<close> and \<open>deallocate()\<close> have each been called at most
  once on a block; \<open>destroy()\<close> has been called exactly on the blocks whose \<open>shared_count\<close>
  has reached 0, \<open>deallocate()\<close> exactly on the blocks of which both counts have reached 0,
  and no live block has both counts at 0.
\<close>

lemma destroy_deallocate_once:
  assumes "plain U" and "run U xs init = Inr s"
  shows "count_list (events_of a (log s)) Destroy \<le> 1 \<and>
         count_list (events_of a (log s)) Deallocate \<le> 1 \<and>
         (Destroy \<in> set (events_of a (log s)) \<longleftrightarrow>
            (\<exists>b. heap s a = Some (Live b) \<and> shared_count b = 0 \<or> heap s a = Some (Freed b))) \<and>
         (Deallocate \<in> set (events_of a (log s)) \<longleftrightarrow> (\<exists>b. heap s a = Some (Freed b))) \<and>
         (\<forall>b. heap s a = Some (Live b) \<longrightarrow> shared_count b \<noteq> 0 \<or> weak_count b \<noteq> 0)"
proof -
  have i: "consistent None None s" by (rule reachable_inv [OF assms])
  then have c: "cell_ok (refs (strong s) a + held None a) (refs (weak s) a + held None a)
      (events_of a (log s)) (heap s a)"
    unfolding consistent_def by blast
  show ?thesis
  proof (cases "heap s a")
    case None
    with c show ?thesis by simp
  next
    case (Some cl)
    show ?thesis
    proof (cases cl)
      case Raw
      with c Some show ?thesis by simp
    next
      case (Live b)
      have "shared_count b = 0 \<longleftrightarrow> unat (shared_count b) = 0" by (simp add: unat_eq_0)
      moreover have "weak_count b = 0 \<longleftrightarrow> unat (weak_count b) = 0" by (simp add: unat_eq_0)
      ultimately show ?thesis using c Some Live
        by (auto simp: destroy_events_def split: ControlBlock.splits option.splits)
    next
      case (Freed b)
      with c Some show ?thesis
        by (auto simp: destroy_events_def split: ControlBlock.splits option.splits)
    qed
  qed
qed

text \<open>
  For such a managed type no program makes the library touch a block that is not alive.
\<close>

lemma plain_run_touches_no_dead_block:
  assumes "plain U"
  shows "fault_of (run U xs init) \<noteq> Some InvalidBlock"
proof (cases "run U xs init")
  case (Inl e)
  with run_good [OF assms init_inv, of xs] show ?thesis
    by (cases e) (simp add: fault_of_def)
next
  case (Inr s)
  then show ?thesis by (simp add: fault_of_def)
qed

lemma node_before_destruction:
  "fault_of (run node_user (butlast node_program) init) = None \<and>
   block_at (after (run node_user (butlast node_program) init)) 0 =
     Some \<lparr>shared_count = 1, weak_count = 1, derived = ControlBlockWithMakeShared 7 0\<rparr>"
  by (simp add: node_program_def node_user_def obs_defs op_defs)

text \<open>
  C1, evaluated on a managed object that holds a WeakPtr to itself. The destructor of the
  last Strong Pointer takes \<open>shared_count\<close> from 1 to 0 and calls \<open>destroy()\<close>; the
  destructor of the object destroys its WeakPtr member, which takes \<open>weak_count\<close> from 1 to
  0, finds both counts at 0 and calls \<open>deallocate()\<close>. Back in the destructor of the Strong
  Pointer, line 188 reads \<open>cb->weak_count\<close> in the block that has just been freed: the run
  ends in the fault \<open>InvalidBlock\<close>, with \<open>deallocate()\<close> already in the log and a second
  call of it guarded by nothing but the freed memory.
\<close>

theorem node_self_reference_faults:
  "fault_of (run node_user node_program init) = Some InvalidBlock \<and>
   log (after (run node_user node_program init)) = [(0, Destroy), (0, DestroyObject), (0, Deallocate)] \<and>
   heap (after (run node_user node_program init)) 0 =
     Some (Freed \<lparr>shared_count = 0, weak_count = 0, derived = ControlBlockWithMakeShared 7 0\<rparr>)"
  by (simp add: node_program_def node_user_def obs_defs op_defs)

end
